theory Spec2Isabelle
  imports Main "HOL-Library.Word"
begin

unbundle bit_operations_syntax

section \<open>Data model\<close>

type_synonym byte = "8 word"
type_synonym uint16 = "16 word"

text \<open>
  Every error value the codec returns, one constructor per place of the source that
  creates it (the formatted message texts are not kept).
\<close>

datatype error =
    EOF
  | ErrInsufficientBufferSize
  | ErrMalformedRemainingLength
  | ErrExceededMaximum
  | ErrLengthGreaterThanMax
  | ErrHeaderEncodeRemlenTooBig
  | ErrHeaderEncodeInvalidType
  | ErrHeaderDecodeInsufficient
  | ErrHeaderSetLength
  | ErrInvalidMessageType
  | ErrMessageTypeMismatch
  | ErrInvalidMessageFlags
  | ErrInvalidPublishQos
  | ErrConnackUnacceptableProtocolVersion
  | ErrConnackIdentifierRejected
  | ErrConnectReservedBit
  | ErrConnectInvalidWillQos
  | ErrConnectWillViolation
  | ErrConnectUsernameWithoutPassword
  | ErrConnectInvalidBufferSize
  | ErrConnectEncodeType
  | ErrConnectEncodeVersion
  | ErrConnackDecodeFlags
  | ErrConnackDecodeReturnCode
  | ErrConnackEncodeReturnCode
  | ErrPublishDecodeTopic
  | ErrPublishEncodeTopicEmpty
  | ErrPublishEncodePayloadEmpty
  | ErrPublishSetQoS
  | ErrPublishSetTopic
  | PanicIndexOutOfRange
  | ErrSubscribeInvalidQos
  | ErrSubscribeEmptyTopicList
  | ErrUnsubscribeEmptyTopicList
  | ErrSubackDecodeReturnCode
  | ErrSubackEncodeReturnCode

section \<open>Constants and validity predicates\<close>

definition maxLPString :: nat where
  "maxLPString = 65535"

definition maxRemainingLength :: int where
  "maxRemainingLength = 268435455"

definition QosAtMostOnce :: byte where "QosAtMostOnce = 0"
definition QosAtLeastOnce :: byte where "QosAtLeastOnce = 1"
definition QosExactlyOnce :: byte where "QosExactlyOnce = 2"
definition QosFailure :: byte where "QosFailure = 0x80"

text \<open>\<open>SupportedVersions\<close>: 0x3 is "MQIsdp", 0x4 is "MQTT" (as bytes).\<close>

definition SupportedVersions :: "byte \<Rightarrow> byte list option" where
  "SupportedVersions v =
     (if v = 0x3 then Some [0x4D, 0x51, 0x49, 0x73, 0x64, 0x70]
      else if v = 0x4 then Some [0x4D, 0x51, 0x54, 0x54]
      else None)"

text \<open>\<open>ValidTopic\<close>: longer than 0 bytes, no \<open>#\<close> (0x23) and no \<open>*\<close> (0x2A).\<close>

definition ValidTopic :: "byte list \<Rightarrow> bool" where
  "ValidTopic topic \<longleftrightarrow> length topic > 0 \<and> 0x23 \<notin> set topic \<and> 0x2A \<notin> set topic"

definition ValidQos :: "byte \<Rightarrow> bool" where
  "ValidQos qos \<longleftrightarrow> qos = QosAtMostOnce \<or> qos = QosAtLeastOnce \<or> qos = QosExactlyOnce"

text \<open>
  \<open>ValidClientId\<close> matches the bytes against the regular expression
  \<open>^[0-9a-zA-Z]*$\<close>: every byte is an ASCII digit or letter.
\<close>

definition clientIdChar :: "byte \<Rightarrow> bool" where
  "clientIdChar c \<longleftrightarrow>
     (0x30 \<le> c \<and> c \<le> 0x39) \<or> (0x61 \<le> c \<and> c \<le> 0x7A) \<or> (0x41 \<le> c \<and> c \<le> 0x5A)"

definition ValidClientId :: "byte list \<Rightarrow> bool" where
  "ValidClientId cid \<longleftrightarrow> list_all clientIdChar cid"

definition ValidVersion :: "byte \<Rightarrow> bool" where
  "ValidVersion v \<longleftrightarrow> SupportedVersions v \<noteq> None"

section \<open>Primitive codec\<close>

text \<open>
  A \<open>bytes.Buffer\<close> is the list of its unread bytes: writes append at the end, reads
  take from the front. \<open>readUint16\<close> returns the value, the error and the buffer.
\<close>

definition readUint16 :: "byte list \<Rightarrow> uint16 \<times> error option \<times> byte list" where
  "readUint16 buf =
     (if length buf < 2 then (0, Some ErrInsufficientBufferSize, buf)
      else (push_bit 8 (ucast (buf ! 0)) OR ucast (buf ! 1), None, drop 2 buf))"

definition writeUint16 :: "byte list \<Rightarrow> uint16 \<Rightarrow> byte list" where
  "writeUint16 buf n = buf @ [ucast (drop_bit 8 n), ucast n]"

text \<open>\<open>readLPBytes\<close> returns the bytes, the count, the error and the buffer.\<close>

definition readLPBytes :: "byte list \<Rightarrow> byte list \<times> nat \<times> error option \<times> byte list" where
  "readLPBytes buf =
     (case readUint16 buf of
        (n, Some e, buf1) \<Rightarrow> ([], 2, Some e, buf1)
      | (n, None, buf1) \<Rightarrow>
          if length buf1 < unat n then ([], 2, Some ErrInsufficientBufferSize, buf1)
          else (take (unat n) buf1, 2 + unat n, None, drop (unat n) buf1))"

text \<open>\<open>writeLPBytes\<close> returns the buffer, the count and the error.\<close>

definition writeLPBytes :: "byte list \<Rightarrow> byte list \<Rightarrow> byte list \<times> nat \<times> error option" where
  "writeLPBytes buf b =
     (if length b > maxLPString then (buf, 0, Some ErrLengthGreaterThanMax)
      else (writeUint16 buf (of_nat (length b)) @ b, 2 + length b, None))"

subsection \<open>The remaining-length varint\<close>

text \<open>
  The loop of \<open>readVarint32\<close>: \<open>i\<close> counts the bytes read, \<open>x\<close> is the value so far,
  \<open>s\<close> the shift, \<open>buf\<close> the bytes stored in the 4-byte array so far. A failed read
  returns \<open>Inl\<close> with the error, \<open>i + 1\<close> and the source; leaving the loop (by
  \<open>break\<close> or by \<open>i = 4\<close>) returns \<open>Inr\<close>.
\<close>

function readVarint32_loop ::
  "nat \<Rightarrow> int \<Rightarrow> nat \<Rightarrow> byte list \<Rightarrow> byte list \<Rightarrow>
     (error \<times> nat \<times> byte list) + (int \<times> nat \<times> byte list \<times> byte list)" where
  "readVarint32_loop i x s buf src =
     (if i < 4 then
        (case src of
           [] \<Rightarrow> Inl (EOF, i + 1, [])
         | b # src' \<Rightarrow>
             if b < 0x80 then Inr (x OR push_bit s (uint b), i, buf @ [b], src')
             else readVarint32_loop (i + 1) (x OR push_bit s (uint (b AND 0x7f))) (s + 7)
                    (buf @ [b]) src')
      else Inr (x, i, buf, src))"
  by pat_completeness auto
termination
  by (relation "measure (\<lambda>(i, x, s, buf, src). 4 - i)") auto

declare readVarint32_loop.simps [simp del]

text \<open>
  \<open>readVarint32 dst src\<close> returns the value, the count, the error, the writer
  (\<open>None\<close> is the nil writer) and the rest of the source.
\<close>

definition readVarint32 ::
  "byte list option \<Rightarrow> byte list \<Rightarrow> int \<times> nat \<times> error option \<times> byte list option \<times> byte list" where
  "readVarint32 dst src =
     (case readVarint32_loop 0 0 0 [] src of
        Inl (e, n, src') \<Rightarrow> (0, n, Some e, dst, src')
      | Inr (x, i, buf, src') \<Rightarrow>
          if i > 3 \<or> (i = 3 \<and> (buf ! 3) AND 0x80 > 0)
          then (x, i + 1, Some ErrMalformedRemainingLength, dst, src')
          else (x, i + 1, None, map_option (\<lambda>d. d @ take (i + 1) buf) dst, src'))"

text \<open>
  The loop of \<open>writeVarint32\<close>, returning the bytes \<open>buf[:i+1]\<close>. The source stores
  them in a 4-byte array; \<open>writeVarint32_loop_length\<close> below shows that at most 4 are
  produced for the values the guard lets through.
\<close>

function writeVarint32_loop :: "int \<Rightarrow> byte list" where
  "writeVarint32_loop x =
     (if x \<ge> 0x80 then (word_of_int x OR 0x80) # writeVarint32_loop (drop_bit 7 x)
      else [word_of_int x])"
  by pat_completeness auto
termination
proof (relation "measure nat")
  show "wf (measure nat)" by simp
next
  fix x :: int
  assume "128 \<le> x"
  then have "x div 128 < x" by linarith
  moreover have "drop_bit 7 x = x div 128" by (simp add: drop_bit_eq_div)
  ultimately show "(drop_bit 7 x, x) \<in> measure nat" using \<open>128 \<le> x\<close> by simp
qed

declare writeVarint32_loop.simps [simp del]

text \<open>\<open>writeVarint32 dst x\<close> returns the writer, the count and the error.\<close>

definition writeVarint32 :: "byte list \<Rightarrow> int \<Rightarrow> byte list \<times> nat \<times> error option" where
  "writeVarint32 dst x =
     (if x > maxRemainingLength then (dst, 0, Some ErrExceededMaximum)
      else (dst @ writeVarint32_loop x, length (writeVarint32_loop x), None))"


definition int32 :: "int \<Rightarrow> int" where
  \<comment> \<open>the conversion \<open>int32(n)\<close> of an \<open>int\<close>: the low 32 bits, read as two's complement\<close>
  "int32 n = signed_take_bit 31 n"

text \<open>
  \<open>io.CopyN dst src n\<close> on byte lists: returns the writer, the rest of the source, the
  number of bytes copied and the error (\<open>EOF\<close> when the source is shorter than \<open>n\<close>).
\<close>

definition CopyN :: "byte list \<Rightarrow> byte list \<Rightarrow> int \<Rightarrow> byte list \<times> byte list \<times> nat \<times> error option" where
  "CopyN dst src n =
     (if length src < nat n then (dst @ src, [], length src, Some EOF)
      else (dst @ take (nat n) src, drop (nat n) src, nat n, None))"

section \<open>Message types\<close>

definition RESERVED :: byte where "RESERVED = 0"
definition CONNECT :: byte where "CONNECT = 1"
definition CONNACK :: byte where "CONNACK = 2"
definition PUBLISH :: byte where "PUBLISH = 3"
definition PUBACK :: byte where "PUBACK = 4"
definition PUBREC :: byte where "PUBREC = 5"
definition PUBREL :: byte where "PUBREL = 6"
definition PUBCOMP :: byte where "PUBCOMP = 7"
definition SUBSCRIBE :: byte where "SUBSCRIBE = 8"
definition SUBACK :: byte where "SUBACK = 9"
definition UNSUBSCRIBE :: byte where "UNSUBSCRIBE = 10"
definition UNSUBACK :: byte where "UNSUBACK = 11"
definition PINGREQ :: byte where "PINGREQ = 12"
definition PINGRESP :: byte where "PINGRESP = 13"
definition DISCONNECT :: byte where "DISCONNECT = 14"
definition RESERVED2 :: byte where "RESERVED2 = 15"

definition DefaultFlags :: "byte \<Rightarrow> byte" where
  "DefaultFlags t =
     (if t = RESERVED then 0
      else if t = CONNECT then 0
      else if t = CONNACK then 0
      else if t = PUBLISH then 0
      else if t = PUBACK then 0
      else if t = PUBREC then 0
      else if t = PUBREL then 2
      else if t = PUBCOMP then 0
      else if t = SUBSCRIBE then 2
      else if t = SUBACK then 0
      else if t = UNSUBSCRIBE then 2
      else if t = UNSUBACK then 0
      else if t = PINGREQ then 0
      else if t = PINGRESP then 0
      else if t = DISCONNECT then 0
      else if t = RESERVED2 then 0
      else 0)"

definition Valid :: "byte \<Rightarrow> bool" where
  "Valid t \<longleftrightarrow> t > RESERVED \<and> t < RESERVED2"

section \<open>Fixed header\<close>

record fixedHeader =
  buf :: "byte list"
  remlen :: int
  mtype :: byte
  flags :: byte

definition resetBuf :: "'a fixedHeader_scheme \<Rightarrow> 'a fixedHeader_scheme" where
  "resetBuf h = h\<lparr>buf := []\<rparr>"

definition SetType :: "'a fixedHeader_scheme \<Rightarrow> byte \<Rightarrow> 'a fixedHeader_scheme \<times> error option" where
  "SetType h t =
     (if t = RESERVED \<or> t = RESERVED2 then (h, Some ErrInvalidMessageType)
      else let h1 = h\<lparr>mtype := t\<rparr>
           in (if t \<noteq> PUBLISH then h1\<lparr>flags := DefaultFlags t\<rparr> else h1, None))"

definition SetRemainingLength ::
  "'a fixedHeader_scheme \<Rightarrow> int \<Rightarrow> 'a fixedHeader_scheme \<times> error option" where
  "SetRemainingLength h n =
     (if n > maxRemainingLength \<or> n < 0 then (h, Some ErrHeaderSetLength)
      else (h\<lparr>remlen := n\<rparr>, None))"

text \<open>
  \<open>fixedHeader.Encode\<close> returns the header (its buffer is the reader handed back), the
  count and the error.
\<close>

definition fixedHeader_Encode ::
  "'a fixedHeader_scheme \<Rightarrow> 'a fixedHeader_scheme \<times> nat \<times> error option" where
  "fixedHeader_Encode h =
     (if remlen h > maxRemainingLength then (h, 0, Some ErrHeaderEncodeRemlenTooBig)
      else if \<not> Valid (mtype h) then (h, 0, Some ErrHeaderEncodeInvalidType)
      else
        let h1 = resetBuf h;
            h2 = h1\<lparr>buf := buf h1 @ [push_bit 4 (mtype h1) OR flags h1]\<rparr>
        in case writeVarint32 (buf h2) (remlen h2) of
             (dst, n, Some e) \<Rightarrow> (h2\<lparr>buf := dst\<rparr>, 1 + n, Some e)
           | (dst, n, None) \<Rightarrow> (h2\<lparr>buf := dst\<rparr>, 1 + n, None))"

text \<open>
  \<open>fixedHeader.copy\<close> returns the header, the rest of the source, the count and the
  error. The first byte is copied into the buffer and read back from its front.
\<close>

definition fixedHeader_copy ::
  "'a fixedHeader_scheme \<Rightarrow> byte list \<Rightarrow> 'a fixedHeader_scheme \<times> byte list \<times> nat \<times> error option" where
  "fixedHeader_copy h src =
     (case CopyN (buf h) src 1 of
        (b0, src1, tot, Some e) \<Rightarrow> (h\<lparr>buf := b0\<rparr>, src1, 0, Some e)
      | (b0, src1, tot, None) \<Rightarrow>
          (case b0 of
             [] \<Rightarrow> (h\<lparr>buf := b0\<rparr>, src1, 0, Some EOF)
           | b # b1 \<Rightarrow>
               let h1 = h\<lparr>buf := b1\<rparr>;
                   t = drop_bit 4 b
               in if \<not> Valid t then (h1, src1, tot, Some ErrInvalidMessageType)
                  else if t \<noteq> mtype h1 then (h1, src1, tot, Some ErrMessageTypeMismatch)
                  else
                    let h2 = h1\<lparr>flags := b AND 0x0f\<rparr>
                    in if mtype h2 \<noteq> PUBLISH \<and> flags h2 \<noteq> DefaultFlags (mtype h2)
                       then (h2, src1, tot, Some ErrInvalidMessageFlags)
                       else if mtype h2 = PUBLISH \<and> \<not> ValidQos (drop_bit 1 (flags h2) AND 0x3)
                       then (h2, src1, tot, Some ErrInvalidPublishQos)
                       else
                         (case readVarint32 (Some (buf h2)) src1 of
                            (x, m, Some e, dst, src2) \<Rightarrow>
                              (h2\<lparr>remlen := x, buf := the dst\<rparr>, src2, tot + m, Some e)
                          | (x, m, None, dst, src2) \<Rightarrow>
                              let h3 = h2\<lparr>remlen := x, buf := drop m (the dst)\<rparr>
                              in (case CopyN (buf h3) src2 (remlen h3) of
                                    (b4, src3, n, Some e) \<Rightarrow>
                                      (h3\<lparr>buf := b4\<rparr>, src3, tot + m + n, Some e)
                                  | (b4, src3, n, None) \<Rightarrow>
                                      (h3\<lparr>buf := b4\<rparr>, src3, tot + m, None)))))"

definition fixedHeader_Decode ::
  "'a fixedHeader_scheme \<Rightarrow> byte list \<Rightarrow> 'a fixedHeader_scheme \<times> byte list \<times> nat \<times> error option" where
  "fixedHeader_Decode h src =
     (case fixedHeader_copy (resetBuf h) src of
        (h1, src1, tot, Some e) \<Rightarrow> (h1, src1, tot, Some e)
      | (h1, src1, tot, None) \<Rightarrow>
          if remlen h1 \<noteq> int (length (buf h1))
          then (h1, src1, tot, Some ErrHeaderDecodeInsufficient)
          else (h1, src1, tot, None))"


section \<open>Per-type messages\<close>

text \<open>
  Every \<open>Decode\<close> returns the message, the rest of the source, the count and the error;
  every \<open>Encode\<close> returns the message, the count and the error. The reader that
  \<open>Encode\<close> hands back on success is the message's buffer.
\<close>

subsection \<open>PUBACK\<close>

record PubackMessage = fixedHeader +
  packetId :: uint16

definition NewPubackMessage :: PubackMessage where
  "NewPubackMessage =
     fst (SetType \<lparr>buf = [], remlen = 0, mtype = 0, flags = 0, PubackMessage.packetId = 0\<rparr> PUBACK)"

definition PubackMessage_Decode ::
  "PubackMessage \<Rightarrow> byte list \<Rightarrow> PubackMessage \<times> byte list \<times> nat \<times> error option" where
  "PubackMessage_Decode m src =
     (case fixedHeader_Decode m src of
        (m1, src1, n, Some e) \<Rightarrow> (m1, src1, 0 + n, Some e)
      | (m1, src1, n, None) \<Rightarrow>
          (case readUint16 (buf m1) of
             (v, Some e, b1) \<Rightarrow> (m1\<lparr>PubackMessage.packetId := v, buf := b1\<rparr>, src1, 0, Some e)
           | (v, None, b1) \<Rightarrow> (m1\<lparr>PubackMessage.packetId := v, buf := b1\<rparr>, src1, n + 2, None)))"

definition PubackMessage_Encode :: "PubackMessage \<Rightarrow> PubackMessage \<times> nat \<times> error option" where
  "PubackMessage_Encode m =
     (let m1 = fst (SetRemainingLength m 2)
      in case fixedHeader_Encode m1 of
           (m2, tot, Some e) \<Rightarrow> (m2, 0, Some e)
         | (m2, tot, None) \<Rightarrow>
             (m2\<lparr>buf := writeUint16 (buf m2) (PubackMessage.packetId m2)\<rparr>, tot + 2, None))"

subsection \<open>CONNACK\<close>

record ConnackMessage = fixedHeader +
  sessionPresent :: bool
  returnCode :: byte

definition NewConnackMessage :: ConnackMessage where
  "NewConnackMessage =
     fst (SetType \<lparr>buf = [], remlen = 0, mtype = 0, flags = 0,
                   sessionPresent = False, returnCode = 0\<rparr> CONNACK)"

definition ConnackMessage_Decode ::
  "ConnackMessage \<Rightarrow> byte list \<Rightarrow> ConnackMessage \<times> byte list \<times> nat \<times> error option" where
  "ConnackMessage_Decode m src =
     (case fixedHeader_Decode m src of
        (m1, src1, n, Some e) \<Rightarrow> (m1, src1, 0 + n, Some e)
      | (m1, src1, n, None) \<Rightarrow>
          (case buf m1 of
             [] \<Rightarrow> (m1, src1, n, Some EOF)
           | b # b1 \<Rightarrow>
               let m2 = m1\<lparr>buf := b1\<rparr>
               in if b AND 254 \<noteq> 0 then (m2, src1, 0, Some ErrConnackDecodeFlags)
                  else
                    let m3 = m2\<lparr>sessionPresent := (b AND 0x1 = 1)\<rparr>
                    in (case buf m3 of
                          [] \<Rightarrow> (m3, src1, n + 1, Some EOF)
                        | c # b2 \<Rightarrow>
                            let m4 = m3\<lparr>buf := b2\<rparr>
                            in if c > 5 then (m4, src1, 0, Some ErrConnackDecodeReturnCode)
                               else (m4\<lparr>returnCode := c\<rparr>, src1, n + 1 + 1, None))))"

definition ConnackMessage_Encode :: "ConnackMessage \<Rightarrow> ConnackMessage \<times> nat \<times> error option" where
  "ConnackMessage_Encode m =
     (let m1 = fst (SetRemainingLength m 2)
      in case fixedHeader_Encode m1 of
           (m2, tot, Some e) \<Rightarrow> (m2, 0, Some e)
         | (m2, tot, None) \<Rightarrow>
             let b0 = (if sessionPresent m2 then 1 else 0)
             in if returnCode m2 > 5 then (m2, 0, Some ErrConnackEncodeReturnCode)
                else (m2\<lparr>buf := buf m2 @ [b0, returnCode m2]\<rparr>, tot + 2, None))"

subsection \<open>PUBLISH\<close>

record PublishMessage = fixedHeader +
  packetId :: uint16
  topic :: "byte list"
  payload :: "byte list"

definition NewPublishMessage :: PublishMessage where
  "NewPublishMessage =
     fst (SetType \<lparr>buf = [], remlen = 0, mtype = 0, flags = 0,
                   PublishMessage.packetId = 0, topic = [], payload = []\<rparr> PUBLISH)"

definition QoS :: "PublishMessage \<Rightarrow> byte" where
  "QoS m = drop_bit 1 (flags m) AND 0x3"


definition SetTopic :: "PublishMessage \<Rightarrow> byte list \<Rightarrow> PublishMessage \<times> error option" where
  "SetTopic m v =
     (if \<not> ValidTopic v then (m, Some ErrPublishSetTopic) else (m\<lparr>topic := v\<rparr>, None))"


definition PublishMessage_Encode :: "PublishMessage \<Rightarrow> PublishMessage \<times> nat \<times> error option" where
  "PublishMessage_Encode m =
     (if length (topic m) = 0 then (m, 0, Some ErrPublishEncodeTopicEmpty)
      else if length (payload m) = 0 then (m, 0, Some ErrPublishEncodePayloadEmpty)
      else
        let tot = 2 + length (topic m) + length (payload m);
            tot = (if QoS m \<noteq> 0 then tot + 2 else tot);
            m1 = fst (SetRemainingLength m (int32 (int tot)))
        in case fixedHeader_Encode m1 of
             (m2, n, Some e) \<Rightarrow> (m2, 0, Some e)
           | (m2, n, None) \<Rightarrow>
               (case writeLPBytes (buf m2) (topic m2) of
                  (b1, n1, Some e) \<Rightarrow> (m2\<lparr>buf := b1\<rparr>, n, Some e)
                | (b1, n1, None) \<Rightarrow>
                    let m3 = m2\<lparr>buf := b1\<rparr>;
                        m4 = (if QoS m3 \<noteq> 0
                              then m3\<lparr>buf := writeUint16 (buf m3) (PublishMessage.packetId m3)\<rparr>
                              else m3);
                        tot2 = (if QoS m3 \<noteq> 0 then n + n1 + 2 else n + n1)
                    in (m4\<lparr>buf := buf m4 @ payload m4\<rparr>, tot2 + length (payload m4), None)))"


subsection \<open>SUBACK\<close>

record SubackMessage = fixedHeader +
  packetId :: uint16
  returnCodes :: "byte list"

definition NewSubackMessage :: SubackMessage where
  "NewSubackMessage =
     fst (SetType \<lparr>buf = [], remlen = 0, mtype = 0, flags = 0,
                   SubackMessage.packetId = 0, returnCodes = []\<rparr> SUBACK)"

definition validReturnCode :: "byte \<Rightarrow> bool" where
  \<comment> \<open>the negation of \<open>code != 0x00 && code != 0x01 && code != 0x02 && code != 0x80\<close>\<close>
  "validReturnCode c \<longleftrightarrow> \<not> (c \<noteq> 0x00 \<and> c \<noteq> 0x01 \<and> c \<noteq> 0x02 \<and> c \<noteq> 0x80)"

definition SubackMessage_Decode ::
  "SubackMessage \<Rightarrow> byte list \<Rightarrow> SubackMessage \<times> byte list \<times> nat \<times> error option" where
  "SubackMessage_Decode m src =
     (case fixedHeader_Decode m src of
        (m1, src1, n, Some e) \<Rightarrow> (m1, src1, 0 + n, Some e)
      | (m1, src1, n, None) \<Rightarrow>
          (case readUint16 (buf m1) of
             (v, Some e, b1) \<Rightarrow> (m1\<lparr>SubackMessage.packetId := v, buf := b1\<rparr>, src1, 0, Some e)
           | (v, None, b1) \<Rightarrow>
               let m2 = m1\<lparr>SubackMessage.packetId := v, buf := b1\<rparr>;
                   m3 = m2\<lparr>returnCodes := buf m2, buf := []\<rparr>;
                   tot = n + 2 + length (returnCodes m3)
               in if \<not> list_all validReturnCode (returnCodes m3)
                  then (m3, src1, tot, Some ErrSubackDecodeReturnCode)
                  else (m3, src1, tot, None)))"

definition SubackMessage_Encode :: "SubackMessage \<Rightarrow> SubackMessage \<times> nat \<times> error option" where
  "SubackMessage_Encode m =
     (if \<not> list_all validReturnCode (returnCodes m) then (m, 0, Some ErrSubackEncodeReturnCode)
      else
        let m1 = fst (SetRemainingLength m (int32 (2 + int32 (int (length (returnCodes m))))))
        in case fixedHeader_Encode m1 of
             (m2, tot, Some e) \<Rightarrow> (m2, 0, Some e)
           | (m2, tot, None) \<Rightarrow>
               let m3 = m2\<lparr>buf := writeUint16 (buf m2) (SubackMessage.packetId m2)\<rparr>
               in (m3\<lparr>buf := buf m3 @ returnCodes m3\<rparr>, tot + 2 + length (returnCodes m3), None))"

subsection \<open>SUBSCRIBE\<close>

record SubscribeMessage = fixedHeader +
  packetId :: uint16
  topics :: "byte list list"
  qos :: "byte list"

definition NewSubscribeMessage :: SubscribeMessage where
  "NewSubscribeMessage =
     fst (SetType \<lparr>buf = [], remlen = 0, mtype = 0, flags = 0,
                   SubscribeMessage.packetId = 0, topics = [], qos = []\<rparr> SUBSCRIBE)"

text \<open>The index of the first element equal to \<open>t\<close> (the \<open>range\<close> loop with \<open>break\<close>).\<close>

fun findTopic :: "byte list list \<Rightarrow> byte list \<Rightarrow> nat \<Rightarrow> nat option" where
  "findTopic [] t i = None"
| "findTopic (x # xs) t i = (if x = t then Some i else findTopic xs t (i + 1))"

definition SubscribeMessage_AddTopic ::
  "SubscribeMessage \<Rightarrow> byte list \<Rightarrow> byte \<Rightarrow> SubscribeMessage \<times> error option" where
  "SubscribeMessage_AddTopic m t q =
     (if \<not> ValidQos q then (m, Some ErrSubscribeInvalidQos)
      else case findTopic (topics m) t 0 of
             Some i \<Rightarrow>
               if i < length (qos m) then (m\<lparr>qos := (qos m)[i := q]\<rparr>, None)
               else (m, Some PanicIndexOutOfRange)
           | None \<Rightarrow> (m\<lparr>topics := topics m @ [t], qos := qos m @ [q]\<rparr>, None))"

text \<open>
  The loop \<open>for this.buf.Len() > 0\<close> of \<open>SubscribeMessage.Decode\<close>; \<open>tot\<close> is the
  running count.
\<close>

function SubscribeMessage_Decode_loop ::
  "SubscribeMessage \<Rightarrow> nat \<Rightarrow> SubscribeMessage \<times> nat \<times> error option" where
  "SubscribeMessage_Decode_loop m tot =
     (if length (buf m) > 0 then
        (case readLPBytes (buf m) of
           (t, n, Some e, b1) \<Rightarrow> (m\<lparr>buf := b1\<rparr>, tot + n, Some e)
         | (t, n, None, b1) \<Rightarrow>
             let m1 = m\<lparr>buf := b1, topics := topics m @ [t]\<rparr>
             in (case buf m1 of
                   [] \<Rightarrow> (m1, tot + n, Some EOF)
                 | b # b2 \<Rightarrow>
                     SubscribeMessage_Decode_loop (m1\<lparr>buf := b2, qos := qos m1 @ [b]\<rparr>) (tot + n + 1)))
      else (m, tot, None))"
  by pat_completeness auto
termination
proof -
  have shrink: "length b1 \<le> length bs" if "readLPBytes bs = (t, n, None, b1)" for bs t n b1
    using that by (auto simp add: readLPBytes_def readUint16_def split: if_splits)
  show ?thesis
    apply (relation "measure (\<lambda>(m, tot). length (buf m))")
     apply simp
    apply (auto dest!: shrink [OF sym])
    done
qed

declare SubscribeMessage_Decode_loop.simps [simp del]

definition SubscribeMessage_Decode ::
  "SubscribeMessage \<Rightarrow> byte list \<Rightarrow> SubscribeMessage \<times> byte list \<times> nat \<times> error option" where
  "SubscribeMessage_Decode m src =
     (case fixedHeader_Decode m src of
        (m1, src1, n, Some e) \<Rightarrow> (m1, src1, 0 + n, Some e)
      | (m1, src1, n, None) \<Rightarrow>
          (case readUint16 (buf m1) of
             (v, Some e, b1) \<Rightarrow> (m1\<lparr>SubscribeMessage.packetId := v, buf := b1\<rparr>, src1, 0, Some e)
           | (v, None, b1) \<Rightarrow>
               (case SubscribeMessage_Decode_loop
                       (m1\<lparr>SubscribeMessage.packetId := v, buf := b1\<rparr>) (n + 2) of
                  (m2, tot, Some e) \<Rightarrow> (m2, src1, tot, Some e)
                | (m2, tot, None) \<Rightarrow>
                    if length (topics m2) = 0 then (m2, src1, 0, Some ErrSubscribeEmptyTopicList)
                    else (m2, src1, tot, None))))"


text \<open>
  The second loop of \<open>SubscribeMessage.Encode\<close>: \<open>ts\<close> are the topics still to be
  written, \<open>qs\<close> the slice \<open>this.qos[i:]\<close>, \<open>b\<close> the buffer and \<open>tot\<close> the count.
\<close>

fun SubscribeMessage_Encode_loop ::
  "byte list list \<Rightarrow> byte list \<Rightarrow> byte list \<Rightarrow> nat \<Rightarrow> byte list \<times> nat \<times> error option" where
  "SubscribeMessage_Encode_loop [] qs b tot = (b, tot, None)"
| "SubscribeMessage_Encode_loop (t # ts) qs b tot =
     (case writeLPBytes b t of
        (b1, n, Some e) \<Rightarrow> (b1, tot, Some e)
      | (b1, n, None) \<Rightarrow>
          (case qs of
             [] \<Rightarrow> (b1, tot + n, Some PanicIndexOutOfRange)
           | q # qs' \<Rightarrow> SubscribeMessage_Encode_loop ts qs' (b1 @ [q]) (tot + n + 1)))"

definition SubscribeMessage_Encode ::
  "SubscribeMessage \<Rightarrow> SubscribeMessage \<times> nat \<times> error option" where
  "SubscribeMessage_Encode m =
     (let tot = foldl (\<lambda>tot t. tot + (2 + length t + 1)) 2 (topics m);
          m1 = fst (SetRemainingLength m (int32 (int tot)))
      in case fixedHeader_Encode m1 of
           (m2, tot, Some e) \<Rightarrow> (m2, tot, Some e)
         | (m2, tot, None) \<Rightarrow>
             let m3 = m2\<lparr>buf := writeUint16 (buf m2) (SubscribeMessage.packetId m2)\<rparr>
             in (case SubscribeMessage_Encode_loop (topics m3) (qos m3) (buf m3) (tot + 2) of
                   (b, tot, err) \<Rightarrow> (m3\<lparr>buf := b\<rparr>, tot, err)))"

subsection \<open>UNSUBSCRIBE\<close>

record UnsubscribeMessage = fixedHeader +
  packetId :: uint16
  topics :: "byte list list"

definition NewUnsubscribeMessage :: UnsubscribeMessage where
  "NewUnsubscribeMessage =
     fst (SetType \<lparr>buf = [], remlen = 0, mtype = 0, flags = 0,
                   UnsubscribeMessage.packetId = 0, UnsubscribeMessage.topics = []\<rparr> UNSUBSCRIBE)"

function UnsubscribeMessage_Decode_loop ::
  "UnsubscribeMessage \<Rightarrow> nat \<Rightarrow> UnsubscribeMessage \<times> nat \<times> error option" where
  "UnsubscribeMessage_Decode_loop m tot =
     (if length (buf m) > 0 then
        (case readLPBytes (buf m) of
           (t, n, Some e, b1) \<Rightarrow> (m\<lparr>buf := b1\<rparr>, tot + n, Some e)
         | (t, n, None, b1) \<Rightarrow>
             UnsubscribeMessage_Decode_loop
               (m\<lparr>buf := b1, UnsubscribeMessage.topics := UnsubscribeMessage.topics m @ [t]\<rparr>)
               (tot + n))
      else (m, tot, None))"
  by pat_completeness auto
termination
proof -
  have shrink: "length b1 < length bs" if "readLPBytes bs = (t, n, None, b1)" for bs t n b1
    using that by (auto simp add: readLPBytes_def readUint16_def split: if_splits)
  show ?thesis
    apply (relation "measure (\<lambda>(m, tot). length (buf m))")
     apply simp
    apply (auto dest!: shrink [OF sym])
    done
qed

declare UnsubscribeMessage_Decode_loop.simps [simp del]

definition UnsubscribeMessage_Decode ::
  "UnsubscribeMessage \<Rightarrow> byte list \<Rightarrow> UnsubscribeMessage \<times> byte list \<times> nat \<times> error option" where
  "UnsubscribeMessage_Decode m src =
     (case fixedHeader_Decode m src of
        (m1, src1, n, Some e) \<Rightarrow> (m1, src1, 0 + n, Some e)
      | (m1, src1, n, None) \<Rightarrow>
          (case readUint16 (buf m1) of
             (v, Some e, b1) \<Rightarrow> (m1\<lparr>UnsubscribeMessage.packetId := v, buf := b1\<rparr>, src1, 0, Some e)
           | (v, None, b1) \<Rightarrow>
               (case UnsubscribeMessage_Decode_loop
                       (m1\<lparr>UnsubscribeMessage.packetId := v, buf := b1\<rparr>) (n + 2) of
                  (m2, tot, Some e) \<Rightarrow> (m2, src1, tot, Some e)
                | (m2, tot, None) \<Rightarrow>
                    if length (UnsubscribeMessage.topics m2) = 0
                    then (m2, src1, 0, Some ErrUnsubscribeEmptyTopicList)
                    else (m2, src1, tot, None))))"

fun UnsubscribeMessage_Encode_loop ::
  "byte list list \<Rightarrow> byte list \<Rightarrow> nat \<Rightarrow> byte list \<times> nat \<times> error option" where
  "UnsubscribeMessage_Encode_loop [] b tot = (b, tot, None)"
| "UnsubscribeMessage_Encode_loop (t # ts) b tot =
     (case writeLPBytes b t of
        (b1, n, Some e) \<Rightarrow> (b1, 0, Some e)
      | (b1, n, None) \<Rightarrow> UnsubscribeMessage_Encode_loop ts b1 (tot + n))"

definition UnsubscribeMessage_Encode ::
  "UnsubscribeMessage \<Rightarrow> UnsubscribeMessage \<times> nat \<times> error option" where
  "UnsubscribeMessage_Encode m =
     (let tot = foldl (\<lambda>tot t. tot + (2 + length t)) 2 (UnsubscribeMessage.topics m);
          m1 = fst (SetRemainingLength m (int32 (int tot)))
      in case fixedHeader_Encode m1 of
           (m2, tot, Some e) \<Rightarrow> (m2, 0, Some e)
         | (m2, tot, None) \<Rightarrow>
             let m3 = m2\<lparr>buf := writeUint16 (buf m2) (UnsubscribeMessage.packetId m2)\<rparr>
             in (case UnsubscribeMessage_Encode_loop (UnsubscribeMessage.topics m3) (buf m3) (tot + 2) of
                   (b, tot, err) \<Rightarrow> (m3\<lparr>buf := b\<rparr>, tot, err)))"


subsection \<open>CONNECT\<close>

record ConnectMessage = fixedHeader +
  connectFlags :: byte
  version :: byte
  keepAlive :: uint16
  protoName :: "byte list"
  clientId :: "byte list"
  willTopic :: "byte list"
  willMessage :: "byte list"
  username :: "byte list"
  password :: "byte list"

definition NewConnectMessage :: ConnectMessage where
  "NewConnectMessage =
     fst (SetType \<lparr>buf = [], remlen = 0, mtype = 0, flags = 0,
                   connectFlags = 0, version = 0, keepAlive = 0, protoName = [], clientId = [],
                   willTopic = [], willMessage = [], username = [], password = []\<rparr> CONNECT)"

definition CleanSession :: "ConnectMessage \<Rightarrow> bool" where
  "CleanSession m \<longleftrightarrow> (drop_bit 1 (connectFlags m) AND 0x1) = 1"

definition WillFlag :: "ConnectMessage \<Rightarrow> bool" where
  "WillFlag m \<longleftrightarrow> (drop_bit 2 (connectFlags m) AND 0x1) = 1"

definition WillQos :: "ConnectMessage \<Rightarrow> byte" where
  "WillQos m = drop_bit 3 (connectFlags m) AND 0x3"

definition WillRetain :: "ConnectMessage \<Rightarrow> bool" where
  "WillRetain m \<longleftrightarrow> (drop_bit 5 (connectFlags m) AND 0x1) = 1"

definition PasswordFlag :: "ConnectMessage \<Rightarrow> bool" where
  "PasswordFlag m \<longleftrightarrow> (drop_bit 6 (connectFlags m) AND 0x1) = 1"

definition UsernameFlag :: "ConnectMessage \<Rightarrow> bool" where
  "UsernameFlag m \<longleftrightarrow> (drop_bit 7 (connectFlags m) AND 0x1) = 1"

text \<open>
  \<open>decodeMessage\<close> in three parts, in the order of the source: the protocol name, version
  and connect flags with their checks; the keep-alive and the client identifier with its
  checks; the will, the user name, the password and the final size check. Each returns
  the message, the running count and the error.
\<close>

definition decodeMessage_flags :: "ConnectMessage \<Rightarrow> ConnectMessage \<times> nat \<times> error option" where
  "decodeMessage_flags m =
     (case readLPBytes (buf m) of
        (pn, n, Some e, b1) \<Rightarrow> (m\<lparr>protoName := pn, buf := b1\<rparr>, 0 + n, Some e)
      | (pn, n, None, b1) \<Rightarrow>
          let m1 = m\<lparr>protoName := pn, buf := b1\<rparr>
          in (case buf m1 of
                [] \<Rightarrow> (m1\<lparr>version := 0\<rparr>, n, Some EOF)
              | v # b2 \<Rightarrow>
                  let m2 = m1\<lparr>version := v, buf := b2\<rparr>
                  in (case SupportedVersions (version m2) of
                        None \<Rightarrow> (m2, n + 1, Some ErrConnackUnacceptableProtocolVersion)
                      | Some verstr \<Rightarrow>
                          if verstr \<noteq> protoName m2
                          then (m2, n + 1, Some ErrConnackUnacceptableProtocolVersion)
                          else
                            (case buf m2 of
                               [] \<Rightarrow> (m2\<lparr>connectFlags := 0\<rparr>, n + 1, Some EOF)
                             | f # b3 \<Rightarrow>
                                 let m3 = m2\<lparr>connectFlags := f, buf := b3\<rparr>
                                 in if connectFlags m3 AND 0x1 \<noteq> 0
                                    then (m3, n + 1 + 1, Some ErrConnectReservedBit)
                                    else if WillQos m3 > QosExactlyOnce
                                    then (m3, n + 1 + 1, Some ErrConnectInvalidWillQos)
                                    else if \<not> WillFlag m3 \<and> (WillRetain m3 \<or> WillQos m3 \<noteq> QosAtMostOnce)
                                    then (m3, n + 1 + 1, Some ErrConnectWillViolation)
                                    else if UsernameFlag m3 \<and> \<not> PasswordFlag m3
                                    then (m3, n + 1 + 1, Some ErrConnectUsernameWithoutPassword)
                                    else (m3, n + 1 + 1, None)))))"

definition decodeMessage_clientId ::
  "ConnectMessage \<Rightarrow> nat \<Rightarrow> ConnectMessage \<times> nat \<times> error option" where
  "decodeMessage_clientId m tot =
     (case readUint16 (buf m) of
        (k, Some e, b1) \<Rightarrow> (m\<lparr>keepAlive := k, buf := b1\<rparr>, tot, Some e)
      | (k, None, b1) \<Rightarrow>
          let m1 = m\<lparr>keepAlive := k, buf := b1\<rparr>
          in (case readLPBytes (buf m1) of
                (cid, n, Some e, b2) \<Rightarrow> (m1\<lparr>clientId := cid, buf := b2\<rparr>, tot + 2 + n, Some e)
              | (cid, n, None, b2) \<Rightarrow>
                  let m2 = m1\<lparr>clientId := cid, buf := b2\<rparr>
                  in if length (clientId m2) = 0 \<and> \<not> CleanSession m2
                     then (m2, tot + 2 + n, Some ErrConnackIdentifierRejected)
                     else if length (clientId m2) > 0 \<and> \<not> ValidClientId (clientId m2)
                     then (m2, tot + 2 + n, Some ErrConnackIdentifierRejected)
                     else (m2, tot + 2 + n, None)))"

definition decodeMessage_will ::
  "ConnectMessage \<Rightarrow> nat \<Rightarrow> ConnectMessage \<times> nat \<times> error option" where
  "decodeMessage_will m tot =
     (if WillFlag m then
        (case readLPBytes (buf m) of
           (wt, n, Some e, b1) \<Rightarrow> (m\<lparr>willTopic := wt, buf := b1\<rparr>, tot + n, Some e)
         | (wt, n, None, b1) \<Rightarrow>
             let m1 = m\<lparr>willTopic := wt, buf := b1\<rparr>
             in (case readLPBytes (buf m1) of
                   (wm, n', Some e, b2) \<Rightarrow> (m1\<lparr>willMessage := wm, buf := b2\<rparr>, tot + n + n', Some e)
                 | (wm, n', None, b2) \<Rightarrow> (m1\<lparr>willMessage := wm, buf := b2\<rparr>, tot + n + n', None)))
      else (m, tot, None))"

definition decodeMessage_username ::
  "ConnectMessage \<Rightarrow> nat \<Rightarrow> ConnectMessage \<times> nat \<times> error option" where
  "decodeMessage_username m tot =
     (if UsernameFlag m \<and> length (buf m) > 0 then
        (case readLPBytes (buf m) of
           (u, n, Some e, b1) \<Rightarrow> (m\<lparr>username := u, buf := b1\<rparr>, tot + n, Some e)
         | (u, n, None, b1) \<Rightarrow> (m\<lparr>username := u, buf := b1\<rparr>, tot + n, None))
      else (m, tot, None))"

definition decodeMessage_password ::
  "ConnectMessage \<Rightarrow> nat \<Rightarrow> ConnectMessage \<times> nat \<times> error option" where
  "decodeMessage_password m tot =
     (if PasswordFlag m \<and> length (buf m) > 0 then
        (case readLPBytes (buf m) of
           (pw, n, Some e, b1) \<Rightarrow> (m\<lparr>password := pw, buf := b1\<rparr>, tot + n, Some e)
         | (pw, n, None, b1) \<Rightarrow> (m\<lparr>password := pw, buf := b1\<rparr>, tot + n, None))
      else (m, tot, None))"

definition decodeMessage :: "ConnectMessage \<Rightarrow> ConnectMessage \<times> nat \<times> error option" where
  "decodeMessage m =
     (case decodeMessage_flags m of
        (m1, tot, Some e) \<Rightarrow> (m1, tot, Some e)
      | (m1, tot, None) \<Rightarrow>
     (case decodeMessage_clientId m1 tot of
        (m2, tot, Some e) \<Rightarrow> (m2, tot, Some e)
      | (m2, tot, None) \<Rightarrow>
     (case decodeMessage_will m2 tot of
        (m3, tot, Some e) \<Rightarrow> (m3, tot, Some e)
      | (m3, tot, None) \<Rightarrow>
     (case decodeMessage_username m3 tot of
        (m4, tot, Some e) \<Rightarrow> (m4, tot, Some e)
      | (m4, tot, None) \<Rightarrow>
     (case decodeMessage_password m4 tot of
        (m5, tot, Some e) \<Rightarrow> (m5, tot, Some e)
      | (m5, tot, None) \<Rightarrow>
          if length (buf m5) > 0 then (m5, tot, Some ErrConnectInvalidBufferSize)
          else (m5, tot, None))))))"

definition ConnectMessage_Decode ::
  "ConnectMessage \<Rightarrow> byte list \<Rightarrow> ConnectMessage \<times> byte list \<times> nat \<times> error option" where
  "ConnectMessage_Decode m src =
     (case fixedHeader_Decode m src of
        (m1, src1, n, Some e) \<Rightarrow> (m1, src1, 0 + n, Some e)
      | (m1, src1, n, None) \<Rightarrow>
          (case decodeMessage m1 of
             (m2, n2, Some e) \<Rightarrow> (m2, src1, n + n2, Some e)
           | (m2, n2, None) \<Rightarrow> (m2, src1, n + n2, None)))"


text \<open>
  \<open>encodeMessage\<close> in two parts: the fixed fields up to the client identifier, then the
  optional will, user name and password. Each returns the message, the count and the
  error.
\<close>

definition encodeMessage_fixed :: "ConnectMessage \<Rightarrow> ConnectMessage \<times> nat \<times> error option" where
  "encodeMessage_fixed m =
     (case SupportedVersions (version m) of
        None \<Rightarrow> (m, 0, Some ErrConnectEncodeVersion)
      | Some verstr \<Rightarrow>
          (case writeLPBytes (buf m) verstr of
             (b1, n, Some e) \<Rightarrow> (m\<lparr>buf := b1\<rparr>, 0, Some e)
           | (b1, n, None) \<Rightarrow>
               let m1 = m\<lparr>buf := b1 @ [version m]\<rparr>;
                   m2 = m1\<lparr>buf := buf m1 @ [connectFlags m1]\<rparr>;
                   m3 = m2\<lparr>buf := writeUint16 (buf m2) (keepAlive m2)\<rparr>;
                   tot = n + 1 + 1 + 2
               in (case writeLPBytes (buf m3) (clientId m3) of
                     (b2, n', Some e) \<Rightarrow> (m3\<lparr>buf := b2\<rparr>, tot + n', Some e)
                   | (b2, n', None) \<Rightarrow> (m3\<lparr>buf := b2\<rparr>, tot + n', None))))"

definition encodeMessage_will ::
  "ConnectMessage \<Rightarrow> nat \<Rightarrow> ConnectMessage \<times> nat \<times> error option" where
  "encodeMessage_will m tot =
     (if WillFlag m then
        (case writeLPBytes (buf m) (willTopic m) of
           (b1, n, Some e) \<Rightarrow> (m\<lparr>buf := b1\<rparr>, tot + n, Some e)
         | (b1, n, None) \<Rightarrow>
             (case writeLPBytes b1 (willMessage m) of
                (b2, n', Some e) \<Rightarrow> (m\<lparr>buf := b2\<rparr>, tot + n + n', Some e)
              | (b2, n', None) \<Rightarrow> (m\<lparr>buf := b2\<rparr>, tot + n + n', None)))
      else (m, tot, None))"

definition encodeMessage_username ::
  "ConnectMessage \<Rightarrow> nat \<Rightarrow> ConnectMessage \<times> nat \<times> error option" where
  "encodeMessage_username m tot =
     (if UsernameFlag m \<and> length (username m) > 0 then
        (case writeLPBytes (buf m) (username m) of
           (b1, n, Some e) \<Rightarrow> (m\<lparr>buf := b1\<rparr>, tot + n, Some e)
         | (b1, n, None) \<Rightarrow> (m\<lparr>buf := b1\<rparr>, tot + n, None))
      else (m, tot, None))"

definition encodeMessage_password ::
  "ConnectMessage \<Rightarrow> nat \<Rightarrow> ConnectMessage \<times> nat \<times> error option" where
  "encodeMessage_password m tot =
     (if PasswordFlag m \<and> length (password m) > 0 then
        (case writeLPBytes (buf m) (password m) of
           (b1, n, Some e) \<Rightarrow> (m\<lparr>buf := b1\<rparr>, tot + n, Some e)
         | (b1, n, None) \<Rightarrow> (m\<lparr>buf := b1\<rparr>, tot + n, None))
      else (m, tot, None))"

definition encodeMessage :: "ConnectMessage \<Rightarrow> ConnectMessage \<times> nat \<times> error option" where
  "encodeMessage m =
     (case encodeMessage_fixed m of
        (m1, tot, Some e) \<Rightarrow> (m1, tot, Some e)
      | (m1, tot, None) \<Rightarrow>
     (case encodeMessage_will m1 tot of
        (m2, tot, Some e) \<Rightarrow> (m2, tot, Some e)
      | (m2, tot, None) \<Rightarrow>
     (case encodeMessage_username m2 tot of
        (m3, tot, Some e) \<Rightarrow> (m3, tot, Some e)
      | (m3, tot, None) \<Rightarrow> encodeMessage_password m3 tot)))"

text \<open>The remaining length that \<open>ConnectMessage.Encode\<close> computes, given the version string.\<close>

definition ConnectMessage_size :: "ConnectMessage \<Rightarrow> byte list \<Rightarrow> nat" where
  "ConnectMessage_size m verstr =
     (let tot = 2 + length verstr + 1 + 1 + 2;
          tot = tot + (2 + length (clientId m));
          tot = (if WillFlag m then tot + (2 + length (willTopic m) + 2 + length (willMessage m))
                 else tot);
          tot = (if UsernameFlag m \<and> length (username m) > 0 then tot + (2 + length (username m))
                 else tot);
          tot = (if PasswordFlag m \<and> length (password m) > 0 then tot + (2 + length (password m))
                 else tot)
      in tot)"

definition ConnectMessage_Encode :: "ConnectMessage \<Rightarrow> ConnectMessage \<times> nat \<times> error option" where
  "ConnectMessage_Encode m =
     (if mtype m \<noteq> CONNECT then (m, 0, Some ErrConnectEncodeType)
      else case SupportedVersions (version m) of
             None \<Rightarrow> (m, 0, Some ErrConnectEncodeVersion)
           | Some verstr \<Rightarrow>
               (case SetRemainingLength m (int32 (int (ConnectMessage_size m verstr))) of
                  (m1, Some e) \<Rightarrow> (m1, 0, Some e)
                | (m1, None) \<Rightarrow>
                    (case fixedHeader_Encode m1 of
                       (m2, n, Some e) \<Rightarrow> (m2, 0 + n, Some e)
                     | (m2, n, None) \<Rightarrow>
                         (case encodeMessage m2 of
                            (m3, n2, Some e) \<Rightarrow> (m3, n + n2, Some e)
                          | (m3, n2, None) \<Rightarrow> (m3, n + n2, None)))))"

section \<open>Wire images used in the statements\<close>

text \<open>
  The two bytes \<open>writeUint16\<close> appends and the bytes \<open>writeLPBytes\<close> appends for a
  byte string that is not too long, named for use in the theorems below.
\<close>

definition uint16Bytes :: "uint16 \<Rightarrow> byte list" where
  "uint16Bytes v = writeUint16 [] v"

definition lpBytes :: "byte list \<Rightarrow> byte list" where
  "lpBytes xs = writeUint16 [] (of_nat (length xs)) @ xs"

text \<open>
  The bytes of a SUBSCRIBE payload holding the given (topic, requested QoS) pairs, and of
  an UNSUBSCRIBE payload holding the given topics.
\<close>

definition subscribePayload :: "(byte list \<times> byte) list \<Rightarrow> byte list" where
  "subscribePayload pairs = concat (map (\<lambda>(t, q). lpBytes t @ [q]) pairs)"

definition unsubscribePayload :: "byte list list \<Rightarrow> byte list" where
  "unsubscribePayload ts = concat (map lpBytes ts)"

text \<open>
  The part of \<open>decodeMessage\<close> that follows the client identifier checks (the will, the
  user name, the password and the final size check), named so that theorems can say that
  decoding goes on with it.
\<close>

definition decodeMessage_rest ::
  "ConnectMessage \<Rightarrow> nat \<Rightarrow> ConnectMessage \<times> nat \<times> error option" where
  "decodeMessage_rest m2 tot =
     (case decodeMessage_will m2 tot of
        (m3, tot, Some e) \<Rightarrow> (m3, tot, Some e)
      | (m3, tot, None) \<Rightarrow>
     (case decodeMessage_username m3 tot of
        (m4, tot, Some e) \<Rightarrow> (m4, tot, Some e)
      | (m4, tot, None) \<Rightarrow>
     (case decodeMessage_password m4 tot of
        (m5, tot, Some e) \<Rightarrow> (m5, tot, Some e)
      | (m5, tot, None) \<Rightarrow>
          if length (buf m5) > 0 then (m5, tot, Some ErrConnectInvalidBufferSize)
          else (m5, tot, None))))"

text \<open>
  The body sizes that the \<open>Encode\<close> functions compute before they set the remaining
  length (the first loop of \<open>SubscribeMessage.Encode\<close> and of
  \<open>UnsubscribeMessage.Encode\<close>, the sum in \<open>PublishMessage.Encode\<close>), and the bytes
  \<open>fixedHeader.Encode\<close> writes for a remaining length within the maximum.
\<close>

definition SubscribeMessage_size :: "SubscribeMessage \<Rightarrow> nat" where
  "SubscribeMessage_size m = foldl (\<lambda>tot t. tot + (2 + length t + 1)) 2 (SubscribeMessage.topics m)"

definition UnsubscribeMessage_size :: "UnsubscribeMessage \<Rightarrow> nat" where
  "UnsubscribeMessage_size m = foldl (\<lambda>tot t. tot + (2 + length t)) 2 (UnsubscribeMessage.topics m)"

definition PublishMessage_size :: "PublishMessage \<Rightarrow> nat" where
  "PublishMessage_size m =
     (let tot = 2 + length (topic m) + length (payload m)
      in if QoS m \<noteq> 0 then tot + 2 else tot)"

definition headerBytes :: "byte \<Rightarrow> byte \<Rightarrow> int \<Rightarrow> byte list" where
  "headerBytes t fl n = (push_bit 4 t OR fl) # writeVarint32_loop n"

text \<open>
  The bytes \<open>encodeMessage\<close> writes for a CONNECT message: the optional fields (the will
  topic and message, the user name, the password, each under the condition the source
  tests), and the whole body after the fixed header, given the registered protocol name.
\<close>

definition connectTail :: "ConnectMessage \<Rightarrow> byte list" where
  "connectTail m =
     (if WillFlag m then lpBytes (willTopic m) @ lpBytes (willMessage m) else []) @
     (if UsernameFlag m \<and> length (username m) > 0 then lpBytes (username m) else []) @
     (if PasswordFlag m \<and> length (password m) > 0 then lpBytes (password m) else [])"

definition connectBody :: "ConnectMessage \<Rightarrow> byte list \<Rightarrow> byte list" where
  "connectBody m verstr =
     lpBytes verstr @ [version m, connectFlags m] @ uint16Bytes (keepAlive m) @
     lpBytes (clientId m) @ connectTail m"

section \<open>Verification\<close>


lemmas MessageType_defs =
  RESERVED_def CONNECT_def CONNACK_def PUBLISH_def PUBACK_def PUBREC_def PUBREL_def
  PUBCOMP_def SUBSCRIBE_def SUBACK_def UNSUBSCRIBE_def UNSUBACK_def PINGREQ_def
  PINGRESP_def DISCONNECT_def RESERVED2_def

subsection \<open>Bytes and the varint\<close>

lemma bit_0x80_int: "bit (0x80 :: int) n \<longleftrightarrow> n = 7"
proof -
  have "(0x80 :: int) = push_bit 7 1" by simp
  then have "bit (0x80 :: int) n \<longleftrightarrow> bit (push_bit 7 1 :: int) n" by simp
  also have "\<dots> \<longleftrightarrow> n = 7" by (auto simp only: bit_simps bit_1_iff) auto
  finally show ?thesis .
qed

lemma byte_or_0x80_not_less: "\<not> ((w :: byte) OR 0x80 < 0x80)"
proof -
  have "(0x80 :: byte) \<le> 0x80 OR w" by (rule le_word_or2)
  then show ?thesis by (simp add: or.commute not_less)
qed

lemma uint_low7_of_int: "uint (((word_of_int y :: byte) OR 0x80) AND 0x7f) = take_bit 7 y"
proof -
  have m: "(0x7f :: byte) = mask 7" by (simp add: mask_eq_exp_minus_1)
  have "((word_of_int y :: byte) OR 0x80) AND mask 7 = word_of_int (take_bit 7 y)"
    by (rule bit_word_eqI) (auto simp add: bit_simps bit_0x80_int)
  then show ?thesis unfolding m by (simp add: uint_word_of_int_eq take_bit_eq_mod)
qed

lemma byte_of_small_int_less: "0 \<le> y \<Longrightarrow> y < 128 \<Longrightarrow> (word_of_int y :: byte) < 0x80"
  by (simp add: word_less_alt uint_word_of_int)

lemma uint_byte_of_small_int: "0 \<le> y \<Longrightarrow> y < 128 \<Longrightarrow> uint (word_of_int y :: byte) = y"
  by (simp add: uint_word_of_int)

lemma or_push_take_drop:
  "(x::int) OR push_bit s (take_bit 7 y) OR push_bit (s + 7) (drop_bit 7 y) = x OR push_bit s y"
proof (rule bit_eqI)
  fix n
  have "7 + (n - (s + 7)) = n - s" if "s + 7 \<le> n" using that by simp
  then show "bit (x OR push_bit s (take_bit 7 y) OR push_bit (s + 7) (drop_bit 7 y)) n
      = bit (x OR push_bit s y) n"
    by (cases "s + 7 \<le> n") (auto simp add: bit_simps)
qed

lemma writeVarint32_loop_small: "x < 128 \<Longrightarrow> writeVarint32_loop x = [word_of_int x]"
  by (simp add: writeVarint32_loop.simps)

lemma writeVarint32_loop_big:
  "128 \<le> x \<Longrightarrow> writeVarint32_loop x = (word_of_int x OR 0x80) # writeVarint32_loop (drop_bit 7 x)"
  by (subst writeVarint32_loop.simps) simp

lemma writeVarint32_loop_not_Nil: "writeVarint32_loop x \<noteq> []"
  by (subst writeVarint32_loop.simps) simp

lemma writeVarint32_loop_length:
  "0 \<le> x \<Longrightarrow> x < 2 ^ (7 * k) \<Longrightarrow> 0 < k \<Longrightarrow> length (writeVarint32_loop x) \<le> k"
proof (induction x arbitrary: k rule: writeVarint32_loop.induct)
  case (1 x)
  show ?case
  proof (cases "128 \<le> x")
    case False
    then show ?thesis using "1.prems" by (simp add: writeVarint32_loop_small)
  next
    case True
    have k2: "2 \<le> k"
    proof (rule ccontr)
      assume "\<not> 2 \<le> k"
      then have "k = 1" using "1.prems" by simp
      then show False using "1.prems" True by simp
    qed
    then obtain k' where k': "k = Suc k'" "0 < k'" by (cases k) auto
    have d: "drop_bit 7 x = x div 128" by (simp add: drop_bit_eq_div)
    have "x < 128 * 2 ^ (7 * k')" using "1.prems"(2) k' by (simp add: power_add)
    then have "x div 128 < 2 ^ (7 * k')" by (simp add: div_less_iff_less_mult ac_simps) 
    moreover have "0 \<le> x div 128" using "1.prems" by simp
    ultimately have "length (writeVarint32_loop (drop_bit 7 x)) \<le> k'"
      using "1.IH"[of k'] True k' d by simp
    then show ?thesis using True k' by (simp add: writeVarint32_loop_big)
  qed
qed

lemma writeVarint32_loop_last:
  "0 \<le> x \<Longrightarrow> last (writeVarint32_loop x) < 0x80"
proof (induction x rule: writeVarint32_loop.induct)
  case (1 x)
  show ?case
  proof (cases "128 \<le> x")
    case False
    then show ?thesis using "1.prems" by (simp add: writeVarint32_loop_small byte_of_small_int_less)
  next
    case True
    have "0 \<le> drop_bit 7 x" using "1.prems" by (simp add: drop_bit_eq_div)
    then show ?thesis using "1.IH" True
      by (simp add: writeVarint32_loop_big writeVarint32_loop_not_Nil)
  qed
qed

lemma readVarint32_loop_write:
  "0 \<le> y \<Longrightarrow> y < 2 ^ (7 * (4 - i)) \<Longrightarrow> i < 4 \<Longrightarrow>
   readVarint32_loop i x s acc (writeVarint32_loop y @ rest) =
     Inr (x OR push_bit s y, i + length (writeVarint32_loop y) - 1, acc @ writeVarint32_loop y, rest)"
proof (induction y arbitrary: i x s acc rule: writeVarint32_loop.induct)
  case (1 y)
  show ?case
  proof (cases "128 \<le> y")
    case False
    then show ?thesis using "1.prems"
      by (simp add: writeVarint32_loop_small readVarint32_loop.simps byte_of_small_int_less
          uint_byte_of_small_int)
  next
    case True
    have d: "drop_bit 7 y = y div 128" by (simp add: drop_bit_eq_div)
    have i3: "i < 3"
    proof (rule ccontr)
      assume "\<not> i < 3"
      then have "i = 3" using "1.prems" by simp
      then show False using "1.prems" True by simp
    qed
    then obtain k where k: "4 - i = Suc k" "4 - Suc i = k" by (cases "4 - i") auto
    have "y < 128 * 2 ^ (7 * k)" using "1.prems"(2) k by (simp add: power_add)
    then have "y div 128 < 2 ^ (7 * k)" by (simp add: div_less_iff_less_mult ac_simps)
    moreover have "0 \<le> y div 128" using "1.prems" by simp
    ultimately have IH: "readVarint32_loop (Suc i) x' s' buf' (writeVarint32_loop (drop_bit 7 y) @ rest) =
       Inr (x' OR push_bit s' (drop_bit 7 y), Suc i + length (writeVarint32_loop (drop_bit 7 y)) - 1,
            buf' @ writeVarint32_loop (drop_bit 7 y), rest)" for x' s' buf'
      using "1.IH"[of "Suc i" x' s' buf'] True k d i3 by simp
    have len: "0 < length (writeVarint32_loop (drop_bit 7 y))"
      using writeVarint32_loop_not_Nil by simp
    show ?thesis
      using "1.prems"(3) len
      apply (simp add: writeVarint32_loop_big[OF True])
      apply (subst readVarint32_loop.simps)
      apply (simp add: byte_or_0x80_not_less uint_low7_of_int IH or_push_take_drop or.assoc)
      done
  qed
qed

lemma byte_high_bit_iff: "(b::byte) AND 0x80 = 0 \<longleftrightarrow> b < 0x80"
proof
  assume "b < 0x80"
  then have "take_bit 7 b = b" using less_mask_eq[of b 7] by (simp add: take_bit_eq_mask)
  then have "b AND 0x80 = take_bit 7 b AND 0x80" by simp
  also have "\<dots> = 0" by (rule bit_word_eqI) (auto simp add: bit_simps bit_0x80_int)
  finally show "b AND 0x80 = 0" .
next
  assume z: "b AND 0x80 = 0"
  have "b = take_bit 7 b"
  proof (rule bit_word_eqI)
    fix n assume n: "n < LENGTH(8)"
    have "\<not> bit (b AND 0x80) 7" using z by simp
    then have "\<not> bit b 7" by (simp add: bit_simps bit_0x80_int)
    then show "bit b n = bit (take_bit 7 b) n" using n
      by (cases "n = 7") (auto simp add: bit_simps)
  qed
  then have "b = b AND mask 7" by (simp add: take_bit_eq_mask)
  moreover have "b AND mask 7 < 2 ^ 7" by (rule and_mask_less_size) (simp add: word_size)
  ultimately have "b < 2 ^ 7" by simp
  then show "b < 0x80" by simp
qed

lemma readVarint32_writeVarint32_loop:
  assumes "0 \<le> x" and "x \<le> maxRemainingLength"
  shows "readVarint32 dst (writeVarint32_loop x @ rest) =
     (x, length (writeVarint32_loop x), None, map_option (\<lambda>d. d @ writeVarint32_loop x) dst, rest)"
proof -
  let ?bs = "writeVarint32_loop x"
  have lt: "x < 2 ^ (7 * 4)" using assms by (simp add: maxRemainingLength_def)
  have len: "length ?bs \<le> 4" using writeVarint32_loop_length[OF assms(1) lt] by simp
  have pos: "0 < length ?bs" using writeVarint32_loop_not_Nil by simp
  have loop: "readVarint32_loop 0 0 0 [] (?bs @ rest) = Inr (x, length ?bs - 1, ?bs, rest)"
    using readVarint32_loop_write[of x 0 0 0 "[]" rest] assms(1) lt by simp
  have lastb: "(?bs ! 3) AND 0x80 = 0" if l4: "length ?bs - 1 = 3"
  proof -
    have "last ?bs < 0x80" using writeVarint32_loop_last[OF assms(1)] .
    moreover have "last ?bs = ?bs ! 3" using l4 by (simp add: last_conv_nth writeVarint32_loop_not_Nil)
    ultimately show ?thesis by (simp add: byte_high_bit_iff)
  qed
  have tk: "take (Suc (length ?bs - 1)) ?bs = ?bs" using pos by simp
  show ?thesis
    unfolding readVarint32_def loop using len pos lastb tk
    by auto
qed


section \<open>Claims\<close>

text \<open>
  Claim C4. \<open>writeVarint32\<close> encodes 0, 127, 128, 16383, 16384, 2097151, 2097152 and
  268435455 in exactly 1, 1, 2, 2, 3, 3, 4 and 4 bytes, and \<open>readVarint32\<close> decodes each
  encoding back to the value, consuming all of it; \<open>writeVarint32\<close> fails on 268435456
  and writes nothing; and \<open>readVarint32\<close> fails with the malformed-remaining-length
  error on every byte sequence whose decoding reaches a 4th byte with the continuation bit
  set, that is, whose first four bytes all carry the continuation bit.
\<close>

theorem C4_varint_boundary:
  "list_all (\<lambda>(v, k).
       (case writeVarint32 [] v of
          (bs, n, err) \<Rightarrow>
            err = None \<and> n = k \<and> length bs = k \<and>
            readVarint32 None bs = (v, k, None, None, [])))
     [(0, 1), (127, 1), (128, 2), (16383, 2), (16384, 3), (2097151, 3), (2097152, 4),
      (268435455, 4)]
   \<and> (\<forall>dst. writeVarint32 dst 268435456 = (dst, 0, Some ErrExceededMaximum))
   \<and> (\<forall>dst b0 b1 b2 b3 rest.
         b0 AND 0x80 \<noteq> 0 \<and> b1 AND 0x80 \<noteq> 0 \<and> b2 AND 0x80 \<noteq> 0 \<and> b3 AND 0x80 \<noteq> 0 \<longrightarrow>
         (case readVarint32 dst (b0 # b1 # b2 # b3 # rest) of
            (x, n, err, dst', src') \<Rightarrow> err = Some ErrMalformedRemainingLength \<and> dst' = dst))"
proof (intro conjI allI impI)
  show "list_all (\<lambda>(v, k).
       (case writeVarint32 [] v of
          (bs, n, err) \<Rightarrow>
            err = None \<and> n = k \<and> length bs = k \<and>
            readVarint32 None bs = (v, k, None, None, [])))
     [(0, 1), (127, 1), (128, 2), (16383, 2), (16384, 3), (2097151, 3), (2097152, 4),
      (268435455, 4)]"
    by (simp add: writeVarint32_def maxRemainingLength_def writeVarint32_loop.simps
        drop_bit_eq_div readVarint32_def readVarint32_loop.simps)
next
  fix dst show "writeVarint32 dst 268435456 = (dst, 0, Some ErrExceededMaximum)"
    by (simp add: writeVarint32_def maxRemainingLength_def)
next
  fix dst :: "byte list option" and b0 b1 b2 b3 :: byte and rest :: "byte list"
  assume "b0 AND 0x80 \<noteq> 0 \<and> b1 AND 0x80 \<noteq> 0 \<and> b2 AND 0x80 \<noteq> 0 \<and> b3 AND (0x80::byte) \<noteq> 0"
  then have "\<not> b0 < 0x80" "\<not> b1 < 0x80" "\<not> b2 < 0x80" "\<not> b3 < 0x80"
    by (simp_all add: byte_high_bit_iff)
  then show "case readVarint32 dst (b0 # b1 # b2 # b3 # rest) of
            (x, n, err, dst', src') \<Rightarrow> err = Some ErrMalformedRemainingLength \<and> dst' = dst"
    by (simp add: readVarint32_def readVarint32_loop.simps)
qed

theorem C4_varint_boundary_witness:
  "(0xff :: byte) AND 0x80 \<noteq> 0 \<and>
   readVarint32 None [0xff, 0xff, 0xff, 0xff, 0x01] =
     (268435455, 5, Some ErrMalformedRemainingLength, None, [0x01])"
proof -
  have h: "(0xff :: byte) AND 0x80 \<noteq> 0" by simp
  have "case readVarint32 None [0xff, 0xff, 0xff, 0xff, 0x01] of
            (x, n, err, dst', src') \<Rightarrow> err = Some ErrMalformedRemainingLength \<and> dst' = None"
    using conjunct2 [OF conjunct2 [OF C4_varint_boundary], rule_format,
        of "0xff" "0xff" "0xff" "0xff" None "[0x01]"] h by simp
  moreover have "readVarint32 None [0xff, 0xff, 0xff, 0xff, 0x01] =
     (268435455, 5, Some ErrMalformedRemainingLength, None, [0x01])"
    by (simp add: readVarint32_def readVarint32_loop.simps)
  ultimately show ?thesis using h by simp
qed

subsection \<open>The fixed header on a non-empty source\<close>


lemma fixedHeader_copy_Cons:
  "fixedHeader_copy (resetBuf h) (b # rest) =
     (if \<not> Valid (drop_bit 4 b) then (h\<lparr>buf := []\<rparr>, rest, 1, Some ErrInvalidMessageType)
      else if drop_bit 4 b \<noteq> mtype h then (h\<lparr>buf := []\<rparr>, rest, 1, Some ErrMessageTypeMismatch)
      else if mtype h \<noteq> PUBLISH \<and> b AND 0x0f \<noteq> DefaultFlags (mtype h)
      then (h\<lparr>buf := [], flags := b AND 0x0f\<rparr>, rest, 1, Some ErrInvalidMessageFlags)
      else if mtype h = PUBLISH \<and> \<not> ValidQos (drop_bit 1 (b AND 0x0f) AND 0x3)
      then (h\<lparr>buf := [], flags := b AND 0x0f\<rparr>, rest, 1, Some ErrInvalidPublishQos)
      else
        (case readVarint32 (Some []) rest of
           (x, m, Some e, dst, src2) \<Rightarrow>
             (h\<lparr>flags := b AND 0x0f, remlen := x, buf := the dst\<rparr>, src2, 1 + m, Some e)
         | (x, m, None, dst, src2) \<Rightarrow>
             (case CopyN (drop m (the dst)) src2 x of
                (b4, src3, n, Some e) \<Rightarrow>
                  (h\<lparr>flags := b AND 0x0f, remlen := x, buf := b4\<rparr>, src3, 1 + m + n, Some e)
              | (b4, src3, n, None) \<Rightarrow>
                  (h\<lparr>flags := b AND 0x0f, remlen := x, buf := b4\<rparr>, src3, 1 + m, None))))"
  unfolding fixedHeader_copy_def resetBuf_def
  by (simp add: CopyN_def Let_def split del: if_split cong: if_cong
      split: prod.split option.split)


lemma readVarint32_loop_Inl:
  "readVarint32_loop i x s acc src = Inl (e, n, src') \<Longrightarrow> e = EOF"
proof (induction i x s acc src rule: readVarint32_loop.induct)
  case (1 i x s acc src)
  then show ?case
    by (subst (asm) (2) readVarint32_loop.simps) (auto split: if_splits list.splits)
qed

lemma readVarint32_error:
  "readVarint32 dst src = (x, n, Some e, dst', src') \<Longrightarrow>
     e = EOF \<or> e = ErrMalformedRemainingLength"
  by (auto simp add: readVarint32_def split: sum.splits if_splits dest: readVarint32_loop_Inl)

lemma CopyN_error: "CopyN dst src n = (dst', src', k, Some e) \<Longrightarrow> e = EOF"
  by (auto simp add: CopyN_def split: if_splits)

lemma fixedHeader_Decode_Cons:
  "fixedHeader_Decode h (b # rest) =
     (if \<not> Valid (drop_bit 4 b) then (h\<lparr>buf := []\<rparr>, rest, 1, Some ErrInvalidMessageType)
      else if drop_bit 4 b \<noteq> mtype h then (h\<lparr>buf := []\<rparr>, rest, 1, Some ErrMessageTypeMismatch)
      else if mtype h \<noteq> PUBLISH \<and> b AND 0x0f \<noteq> DefaultFlags (mtype h)
      then (h\<lparr>buf := [], flags := b AND 0x0f\<rparr>, rest, 1, Some ErrInvalidMessageFlags)
      else if mtype h = PUBLISH \<and> \<not> ValidQos (drop_bit 1 (b AND 0x0f) AND 0x3)
      then (h\<lparr>buf := [], flags := b AND 0x0f\<rparr>, rest, 1, Some ErrInvalidPublishQos)
      else
        (case readVarint32 (Some []) rest of
           (x, m, Some e, dst, src2) \<Rightarrow>
             (h\<lparr>flags := b AND 0x0f, remlen := x, buf := the dst\<rparr>, src2, 1 + m, Some e)
         | (x, m, None, dst, src2) \<Rightarrow>
             (case CopyN (drop m (the dst)) src2 x of
                (b4, src3, n, Some e) \<Rightarrow>
                  (h\<lparr>flags := b AND 0x0f, remlen := x, buf := b4\<rparr>, src3, 1 + m + n, Some e)
              | (b4, src3, n, None) \<Rightarrow>
                  if x \<noteq> int (length b4)
                  then (h\<lparr>flags := b AND 0x0f, remlen := x, buf := b4\<rparr>, src3, 1 + m,
                        Some ErrHeaderDecodeInsufficient)
                  else (h\<lparr>flags := b AND 0x0f, remlen := x, buf := b4\<rparr>, src3, 1 + m, None))))"
proof -
  consider (a) "\<not> Valid (drop_bit 4 b)"
    | (b) "Valid (drop_bit 4 b)" "drop_bit 4 b \<noteq> mtype h"
    | (c) "Valid (drop_bit 4 b)" "drop_bit 4 b = mtype h"
          "mtype h \<noteq> PUBLISH \<and> b AND 0x0f \<noteq> DefaultFlags (mtype h)"
    | (d) "Valid (drop_bit 4 b)" "drop_bit 4 b = mtype h"
          "\<not> (mtype h \<noteq> PUBLISH \<and> b AND 0x0f \<noteq> DefaultFlags (mtype h))"
          "mtype h = PUBLISH \<and> \<not> ValidQos (drop_bit 1 (b AND 0x0f) AND 0x3)"
    | (e) "Valid (drop_bit 4 b)" "drop_bit 4 b = mtype h"
          "\<not> (mtype h \<noteq> PUBLISH \<and> b AND 0x0f \<noteq> DefaultFlags (mtype h))"
          "\<not> (mtype h = PUBLISH \<and> \<not> ValidQos (drop_bit 1 (b AND 0x0f) AND 0x3))"
    by blast
  then show ?thesis
  proof cases
    case a
    then show ?thesis by (simp add: fixedHeader_Decode_def fixedHeader_copy_Cons)
  next
    case b
    then show ?thesis by (simp add: fixedHeader_Decode_def fixedHeader_copy_Cons)
  next
    case c
    then show ?thesis by (simp add: fixedHeader_Decode_def fixedHeader_copy_Cons)
  next
    case d
    then show ?thesis by (simp add: fixedHeader_Decode_def fixedHeader_copy_Cons)
  next
    case e
    let ?k = "case readVarint32 (Some []) rest of
           (x, m, Some e, dst, src2) \<Rightarrow>
             (h\<lparr>flags := b AND 0x0f, remlen := x, buf := the dst\<rparr>, src2, 1 + m, Some e)
         | (x, m, None, dst, src2) \<Rightarrow>
             (case CopyN (drop m (the dst)) src2 x of
                (b4, src3, n, Some e) \<Rightarrow>
                  (h\<lparr>flags := b AND 0x0f, remlen := x, buf := b4\<rparr>, src3, 1 + m + n, Some e)
              | (b4, src3, n, None) \<Rightarrow>
                  (h\<lparr>flags := b AND 0x0f, remlen := x, buf := b4\<rparr>, src3, 1 + m, None))"
    have v: "Valid (mtype h)" using e by simp
    have cp: "fixedHeader_copy (resetBuf h) (b # rest) = ?k"
      by (subst fixedHeader_copy_Cons) (simp only: e v simp_thms if_False if_True)
    have rhs: "(if \<not> Valid (drop_bit 4 b) then (h\<lparr>buf := []\<rparr>, rest, 1, Some ErrInvalidMessageType)
      else if drop_bit 4 b \<noteq> mtype h then (h\<lparr>buf := []\<rparr>, rest, 1, Some ErrMessageTypeMismatch)
      else if mtype h \<noteq> PUBLISH \<and> b AND 0x0f \<noteq> DefaultFlags (mtype h)
      then (h\<lparr>buf := [], flags := b AND 0x0f\<rparr>, rest, 1, Some ErrInvalidMessageFlags)
      else if mtype h = PUBLISH \<and> \<not> ValidQos (drop_bit 1 (b AND 0x0f) AND 0x3)
      then (h\<lparr>buf := [], flags := b AND 0x0f\<rparr>, rest, 1, Some ErrInvalidPublishQos)
      else X) = X" for X :: "'a fixedHeader_scheme \<times> byte list \<times> nat \<times> error option"
      by (simp only: e v simp_thms if_False if_True)
    show ?thesis
      unfolding rhs fixedHeader_Decode_def cp
      by (simp split: prod.split option.split)
  qed
qed

subsection \<open>The branches of the fixed-header decoder\<close>

lemma fixedHeader_Decode_invalid_type:
  "\<not> Valid (drop_bit 4 b) \<Longrightarrow>
   fixedHeader_Decode h (b # rest) = (h\<lparr>buf := []\<rparr>, rest, 1, Some ErrInvalidMessageType)"
  by (subst fixedHeader_Decode_Cons) (simp only: simp_thms if_True if_False)

lemma fixedHeader_Decode_type_mismatch:
  "Valid (drop_bit 4 b) \<Longrightarrow> drop_bit 4 b \<noteq> mtype h \<Longrightarrow>
   fixedHeader_Decode h (b # rest) = (h\<lparr>buf := []\<rparr>, rest, 1, Some ErrMessageTypeMismatch)"
  by (subst fixedHeader_Decode_Cons) (simp only: simp_thms if_True if_False)

lemma fixedHeader_Decode_invalid_flags:
  assumes "Valid (mtype h)" "drop_bit 4 b = mtype h" "mtype h \<noteq> PUBLISH"
    "b AND 0x0f \<noteq> DefaultFlags (mtype h)"
  shows "fixedHeader_Decode h (b # rest) =
     (h\<lparr>buf := [], flags := b AND 0x0f\<rparr>, rest, 1, Some ErrInvalidMessageFlags)"
  by (subst fixedHeader_Decode_Cons) (simp only: assms simp_thms if_True if_False)

lemma fixedHeader_Decode_invalid_qos:
  assumes "drop_bit 4 b = PUBLISH" "mtype h = PUBLISH"
    "\<not> ValidQos (drop_bit 1 (b AND 0x0f) AND 0x3)"
  shows "fixedHeader_Decode h (b # rest) =
     (h\<lparr>buf := [], flags := b AND 0x0f\<rparr>, rest, 1, Some ErrInvalidPublishQos)"
proof -
  have v: "Valid PUBLISH" by (simp add: Valid_def MessageType_defs)
  show ?thesis
    by (subst fixedHeader_Decode_Cons) (simp only: assms v simp_thms if_True if_False)
qed

lemma fixedHeader_Decode_body:
  assumes "Valid (mtype h)" "drop_bit 4 b = mtype h"
    "mtype h \<noteq> PUBLISH \<longrightarrow> b AND 0x0f = DefaultFlags (mtype h)"
    "mtype h = PUBLISH \<longrightarrow> ValidQos (drop_bit 1 (b AND 0x0f) AND 0x3)"
  shows "fixedHeader_Decode h (b # rest) =
     (case readVarint32 (Some []) rest of
           (x, m, Some e, dst, src2) \<Rightarrow>
             (h\<lparr>flags := b AND 0x0f, remlen := x, buf := the dst\<rparr>, src2, 1 + m, Some e)
         | (x, m, None, dst, src2) \<Rightarrow>
             (case CopyN (drop m (the dst)) src2 x of
                (b4, src3, n, Some e) \<Rightarrow>
                  (h\<lparr>flags := b AND 0x0f, remlen := x, buf := b4\<rparr>, src3, 1 + m + n, Some e)
              | (b4, src3, n, None) \<Rightarrow>
                  if x \<noteq> int (length b4)
                  then (h\<lparr>flags := b AND 0x0f, remlen := x, buf := b4\<rparr>, src3, 1 + m,
                        Some ErrHeaderDecodeInsufficient)
                  else (h\<lparr>flags := b AND 0x0f, remlen := x, buf := b4\<rparr>, src3, 1 + m, None)))"
proof -
  have c: "\<not> (mtype h \<noteq> PUBLISH \<and> b AND 0x0f \<noteq> DefaultFlags (mtype h))"
    using assms(3) by blast
  have d: "\<not> (mtype h = PUBLISH \<and> \<not> ValidQos (drop_bit 1 (b AND 0x0f) AND 0x3))"
    using assms(4) by blast
  show ?thesis
    by (subst fixedHeader_Decode_Cons) (simp only: assms(1,2) c d simp_thms if_True if_False)
qed

text \<open>
  Claim C7. Decoding the fixed header of a byte sequence whose type nibble is not PUBLISH
  fails when the flags nibble differs from that type's default flags (the type check may
  fail first; when the type is valid and is the one the message expects, the error is
  the flags error). The default flags are 2 for PUBREL, SUBSCRIBE and UNSUBSCRIBE and 0
  for every other type. For a PUBLISH type nibble, decoding fails when bits 2-1 of the
  flags are 3 (with the QoS error when the message expects PUBLISH); when they are 0, 1
  or 2 and the message expects PUBLISH, no type, flags or QoS error is returned, the
  flags are stored and the decoder goes on to read the remaining length.
\<close>

theorem C7_fixed_header_flags:
  fixes h :: "'a fixedHeader_scheme"
  shows
  "(drop_bit 4 b \<noteq> PUBLISH \<and> b AND 0x0f \<noteq> DefaultFlags (drop_bit 4 b) \<longrightarrow>
      (case fixedHeader_Decode h (b # rest) of
         (h', src', n, err) \<Rightarrow>
           err \<in> {Some ErrInvalidMessageType, Some ErrMessageTypeMismatch, Some ErrInvalidMessageFlags} \<and>
           (Valid (drop_bit 4 b) \<and> mtype h = drop_bit 4 b \<longrightarrow> err = Some ErrInvalidMessageFlags)))
   \<and> (\<forall>t. DefaultFlags t = (if t = PUBREL \<or> t = SUBSCRIBE \<or> t = UNSUBSCRIBE then 2 else 0))
   \<and> (drop_bit 4 b = PUBLISH \<and> drop_bit 1 (b AND 0x0f) AND 0x3 = 3 \<longrightarrow>
      (case fixedHeader_Decode h (b # rest) of
         (h', src', n, err) \<Rightarrow>
           err \<in> {Some ErrMessageTypeMismatch, Some ErrInvalidPublishQos} \<and>
           (mtype h = PUBLISH \<longrightarrow> err = Some ErrInvalidPublishQos)))
   \<and> (drop_bit 4 b = PUBLISH \<and> mtype h = PUBLISH \<and> drop_bit 1 (b AND 0x0f) AND 0x3 \<in> {0, 1, 2} \<longrightarrow>
      (case fixedHeader_Decode h (b # rest) of
         (h', src', n, err) \<Rightarrow>
           err \<notin> {Some ErrInvalidMessageType, Some ErrMessageTypeMismatch,
                   Some ErrInvalidMessageFlags, Some ErrInvalidPublishQos} \<and>
           flags h' = b AND 0x0f \<and>
           remlen h' = fst (readVarint32 (Some []) rest)))"
proof (intro conjI impI allI)
  assume a: "drop_bit 4 b \<noteq> PUBLISH \<and> b AND 0x0f \<noteq> DefaultFlags (drop_bit 4 b)"
  consider (inv) "\<not> Valid (drop_bit 4 b)"
    | (mis) "Valid (drop_bit 4 b)" "drop_bit 4 b \<noteq> mtype h"
    | (ok) "Valid (drop_bit 4 b)" "drop_bit 4 b = mtype h"
    by blast
  then show "case fixedHeader_Decode h (b # rest) of
         (h', src', n, err) \<Rightarrow>
           err \<in> {Some ErrInvalidMessageType, Some ErrMessageTypeMismatch, Some ErrInvalidMessageFlags} \<and>
           (Valid (drop_bit 4 b) \<and> mtype h = drop_bit 4 b \<longrightarrow> err = Some ErrInvalidMessageFlags)"
  proof cases
    case inv
    show ?thesis unfolding fixedHeader_Decode_invalid_type [OF inv] using inv by simp
  next
    case mis
    show ?thesis unfolding fixedHeader_Decode_type_mismatch [OF mis] using mis by auto
  next
    case ok
    have v: "Valid (mtype h)" using ok by simp
    have p: "mtype h \<noteq> PUBLISH" using a ok by simp
    have f: "b AND 0x0f \<noteq> DefaultFlags (mtype h)" using a ok by simp
    show ?thesis unfolding fixedHeader_Decode_invalid_flags [OF v ok(2) p f] by simp
  qed
next
  fix t show "DefaultFlags t = (if t = PUBREL \<or> t = SUBSCRIBE \<or> t = UNSUBSCRIBE then 2 else 0)"
    by (simp add: DefaultFlags_def MessageType_defs)
next
  assume a: "drop_bit 4 b = PUBLISH \<and> drop_bit 1 (b AND 0x0f) AND 0x3 = 3"
  then have nq: "\<not> ValidQos (drop_bit 1 (b AND 0x0f) AND 0x3)"
    by (simp add: ValidQos_def QosAtMostOnce_def QosAtLeastOnce_def QosExactlyOnce_def)
  have t: "drop_bit 4 b = PUBLISH" using a by simp
  have v: "Valid (drop_bit 4 b)" unfolding t by (simp add: Valid_def MessageType_defs)
  show "case fixedHeader_Decode h (b # rest) of
         (h', src', n, err) \<Rightarrow>
           err \<in> {Some ErrMessageTypeMismatch, Some ErrInvalidPublishQos} \<and>
           (mtype h = PUBLISH \<longrightarrow> err = Some ErrInvalidPublishQos)"
  proof (cases "mtype h = PUBLISH")
    case True
    show ?thesis unfolding fixedHeader_Decode_invalid_qos [OF t True nq] by simp
  next
    case False
    then have m: "drop_bit 4 b \<noteq> mtype h" using t by simp
    show ?thesis unfolding fixedHeader_Decode_type_mismatch [OF v m] using False by simp
  qed
next
  assume a: "drop_bit 4 b = PUBLISH \<and> mtype h = PUBLISH \<and> drop_bit 1 (b AND 0x0f) AND 0x3 \<in> {0, 1, 2}"
  then have q: "ValidQos (drop_bit 1 (b AND 0x0f) AND 0x3)"
    unfolding ValidQos_def QosAtMostOnce_def QosAtLeastOnce_def QosExactlyOnce_def by blast
  have t: "drop_bit 4 b = mtype h" and p: "mtype h = PUBLISH" using a by simp_all
  have v: "Valid (mtype h)" unfolding p by (simp add: Valid_def MessageType_defs)
  note body = fixedHeader_Decode_body [OF v t, of rest]
  obtain x m err dst src2 where rv: "readVarint32 (Some []) rest = (x, m, err, dst, src2)"
    by (metis prod_cases5)
  show "case fixedHeader_Decode h (b # rest) of
         (h', src', n, err) \<Rightarrow>
           err \<notin> {Some ErrInvalidMessageType, Some ErrMessageTypeMismatch,
                   Some ErrInvalidMessageFlags, Some ErrInvalidPublishQos} \<and>
           flags h' = b AND 0x0f \<and>
           remlen h' = fst (readVarint32 (Some []) rest)"
  proof (cases err)
    case (Some e)
    then have e: "e = EOF \<or> e = ErrMalformedRemainingLength" using rv readVarint32_error by blast
    have "fixedHeader_Decode h (b # rest) =
        (h\<lparr>flags := b AND 0x0f, remlen := x, buf := the dst\<rparr>, src2, 1 + m, Some e)"
      using body p q rv Some by simp
    then show ?thesis using e rv by auto
  next
    case None
    obtain b4 src3 n err2 where cn: "CopyN (drop m (the dst)) src2 x = (b4, src3, n, err2)"
      by (metis prod_cases4)
    show ?thesis
    proof (cases err2)
      case (Some e)
      then have e: "e = EOF" using cn CopyN_error by blast
      have "fixedHeader_Decode h (b # rest) =
          (h\<lparr>flags := b AND 0x0f, remlen := x, buf := b4\<rparr>, src3, 1 + m + n, Some e)"
        using body p q rv None cn Some by simp
      then show ?thesis using e rv by simp
    next
      case None': None
      have "fixedHeader_Decode h (b # rest) =
          (if x \<noteq> int (length b4)
           then (h\<lparr>flags := b AND 0x0f, remlen := x, buf := b4\<rparr>, src3, 1 + m,
                 Some ErrHeaderDecodeInsufficient)
           else (h\<lparr>flags := b AND 0x0f, remlen := x, buf := b4\<rparr>, src3, 1 + m, None))"
        using body p q rv None cn None' by simp
      then show ?thesis using rv by simp
    qed
  qed
qed

theorem C7_fixed_header_flags_witness:
  "(drop_bit 4 (0x41 :: byte) \<noteq> PUBLISH \<and> 0x41 AND 0x0f \<noteq> DefaultFlags (drop_bit 4 (0x41 :: byte))) \<and>
   (case fixedHeader_Decode NewPubackMessage [0x41, 2, 0, 7] of
      (h', src', n, err) \<Rightarrow> err = Some ErrInvalidMessageFlags) \<and>
   (drop_bit 4 (0x36 :: byte) = PUBLISH \<and> drop_bit 1 ((0x36 :: byte) AND 0x0f) AND 0x3 = 3) \<and>
   (case fixedHeader_Decode NewPublishMessage [0x36, 2, 0, 7] of
      (h', src', n, err) \<Rightarrow> err = Some ErrInvalidPublishQos) \<and>
   (drop_bit 4 (0x32 :: byte) = PUBLISH \<and> mtype NewPublishMessage = PUBLISH \<and>
      drop_bit 1 ((0x32 :: byte) AND 0x0f) AND 0x3 \<in> {0, 1, 2}) \<and>
   (case fixedHeader_Decode NewPublishMessage [0x32, 2, 0, 7] of
      (h', src', n, err) \<Rightarrow> err = None \<and> flags h' = 2 \<and> remlen h' = 2)"
proof -
  have h1: "drop_bit 4 (0x41 :: byte) \<noteq> PUBLISH \<and> 0x41 AND 0x0f \<noteq> DefaultFlags (drop_bit 4 (0x41 :: byte))"
    by (simp add: MessageType_defs DefaultFlags_def)
  have t1: "Valid (drop_bit 4 (0x41 :: byte)) \<and> mtype NewPubackMessage = drop_bit 4 (0x41 :: byte)"
    by (simp add: Valid_def MessageType_defs NewPubackMessage_def SetType_def)
  have h2: "drop_bit 4 (0x36 :: byte) = PUBLISH \<and> drop_bit 1 ((0x36 :: byte) AND 0x0f) AND 0x3 = 3"
    by (simp add: MessageType_defs)
  have t2: "mtype NewPublishMessage = PUBLISH"
    by (simp add: MessageType_defs NewPublishMessage_def SetType_def)
  have h3: "drop_bit 4 (0x32 :: byte) = PUBLISH \<and> mtype NewPublishMessage = PUBLISH \<and>
      drop_bit 1 ((0x32 :: byte) AND 0x0f) AND 0x3 \<in> {0, 1, 2}"
    using t2 by (simp add: MessageType_defs)
  note c7a = C7_fixed_header_flags [of "0x41" NewPubackMessage "[2, 0, 7]"]
  note c7b = C7_fixed_header_flags [of "0x36" NewPublishMessage "[2, 0, 7]"]
  note c7c = C7_fixed_header_flags [of "0x32" NewPublishMessage "[2, 0, 7]"]
  have r1: "case fixedHeader_Decode NewPubackMessage [0x41, 2, 0, 7] of
      (h', src', n, err) \<Rightarrow> err = Some ErrInvalidMessageFlags"
    using c7a [THEN conjunct1, rule_format, OF h1] t1 by (auto split: prod.splits)
  have r2: "case fixedHeader_Decode NewPublishMessage [0x36, 2, 0, 7] of
      (h', src', n, err) \<Rightarrow> err = Some ErrInvalidPublishQos"
    using c7b [THEN conjunct2, THEN conjunct2, THEN conjunct1, rule_format, OF h2] t2
    by (auto split: prod.splits)
  have ev: "case fixedHeader_Decode NewPublishMessage [0x32, 2, 0, 7] of
      (h', src', n, err) \<Rightarrow> err = None"
    by (simp add: fixedHeader_Decode_Cons MessageType_defs NewPublishMessage_def SetType_def
        Valid_def ValidQos_def QosAtMostOnce_def QosAtLeastOnce_def QosExactlyOnce_def
        readVarint32_def readVarint32_loop.simps CopyN_def)
  have rv: "fst (readVarint32 (Some []) [2, 0, 7]) = 2"
    by (simp add: readVarint32_def readVarint32_loop.simps)
  have r3: "case fixedHeader_Decode NewPublishMessage [0x32, 2, 0, 7] of
      (h', src', n, err) \<Rightarrow> err = None \<and> flags h' = 2 \<and> remlen h' = 2"
    using c7c [THEN conjunct2, THEN conjunct2, THEN conjunct2, rule_format, OF h3] ev rv
    by (auto split: prod.splits)
  show ?thesis using h1 r1 h2 r2 h3 r3 by blast
qed

subsection \<open>Evaluation on concrete packets\<close>

lemmas eval_defs =
  fixedHeader_Decode_Cons MessageType_defs SetType_def DefaultFlags_def
  Valid_def ValidQos_def QosAtMostOnce_def QosAtLeastOnce_def QosExactlyOnce_def
  readVarint32_def readVarint32_loop.simps CopyN_def readUint16_def readLPBytes_def
  writeUint16_def writeLPBytes_def maxLPString_def
  fixedHeader_Encode_def SetRemainingLength_def maxRemainingLength_def resetBuf_def
  writeVarint32_def writeVarint32_loop.simps drop_bit_eq_div

lemmas connect_defs =
  ConnectMessage_Decode_def decodeMessage_def decodeMessage_flags_def
  decodeMessage_clientId_def decodeMessage_will_def decodeMessage_username_def
  decodeMessage_password_def NewConnectMessage_def SupportedVersions_def
  CleanSession_def WillFlag_def WillQos_def WillRetain_def PasswordFlag_def UsernameFlag_def
  ValidClientId_def clientIdChar_def

text \<open>
  Claim C3. A packet whose declared remaining length is larger than what the body decoder
  consumes must be rejected with a size-mismatch error. \<open>ConnectMessage.Decode\<close> does
  so, but \<open>PubackMessage.Decode\<close> and \<open>ConnackMessage.Decode\<close> accept a declared
  remaining length of 3 with three body bytes supplied and leave the third byte unread in
  the buffer.
\<close>

theorem C3_trailing_bytes_accepted:
  "PubackMessage_Decode NewPubackMessage [0x40, 3, 0, 7, 9] =
     (\<lparr>buf = [9], remlen = 3, mtype = PUBACK, flags = 0, PubackMessage.packetId = 7\<rparr>, [], 4, None)
   \<and> ConnackMessage_Decode NewConnackMessage [0x20, 3, 0, 0, 9] =
     (\<lparr>buf = [9], remlen = 3, mtype = CONNACK, flags = 0, sessionPresent = False, returnCode = 0\<rparr>,
      [], 4, None)
   \<and> (case ConnectMessage_Decode NewConnectMessage
              [0x10, 16, 0, 4, 0x4D, 0x51, 0x54, 0x54, 4, 2, 0, 10, 0, 3, 0x61, 0x62, 0x63, 9] of
         (m, src, n, err) \<Rightarrow> err = Some ErrConnectInvalidBufferSize \<and> buf m = [9])"
  by (simp add: PubackMessage_Decode_def NewPubackMessage_def ConnackMessage_Decode_def
      NewConnackMessage_def eval_defs connect_defs)

text \<open>
  Claim C8. Encoding a packet with an invalid field value must fail before any byte is
  written. \<open>PublishMessage.Encode\<close> and \<open>ConnectMessage.Encode\<close> check first and
  leave the message as it was, but \<open>ConnackMessage.Encode\<close> with return code 6 has
  already set the remaining length and written the two header bytes into the buffer when
  it returns the error.
\<close>

theorem C8_connack_encode_writes_header_first:
  "ConnackMessage_Encode (NewConnackMessage\<lparr>returnCode := 6\<rparr>) =
     (\<lparr>buf = [0x20, 0x02], remlen = 2, mtype = CONNACK, flags = 0, sessionPresent = False,
       returnCode = 6\<rparr>, 0, Some ErrConnackEncodeReturnCode)
   \<and> buf (NewConnackMessage\<lparr>returnCode := 6\<rparr>) = []
   \<and> remlen (NewConnackMessage\<lparr>returnCode := 6\<rparr>) = 0
   \<and> PublishMessage_Encode (NewPublishMessage\<lparr>payload := [1]\<rparr>) =
       (NewPublishMessage\<lparr>payload := [1]\<rparr>, 0, Some ErrPublishEncodeTopicEmpty)
   \<and> PublishMessage_Encode (NewPublishMessage\<lparr>topic := [0x61]\<rparr>) =
       (NewPublishMessage\<lparr>topic := [0x61]\<rparr>, 0, Some ErrPublishEncodePayloadEmpty)
   \<and> ConnectMessage_Encode (NewConnectMessage\<lparr>version := 5\<rparr>) =
       (NewConnectMessage\<lparr>version := 5\<rparr>, 0, Some ErrConnectEncodeVersion)"
  by (simp add: ConnackMessage_Encode_def NewConnackMessage_def PublishMessage_Encode_def
      NewPublishMessage_def ConnectMessage_Encode_def eval_defs connect_defs)

subsection \<open>Fixed-width integers and length-prefixed strings\<close>

lemma uint16_of_bytes: "push_bit 8 (ucast (ucast (drop_bit 8 v) :: byte)) OR ucast (ucast v :: byte) = (v :: uint16)"
  by (rule bit_word_eqI) (auto simp add: bit_simps)

lemma length_uint16Bytes [simp]: "length (uint16Bytes v) = 2"
  by (simp add: uint16Bytes_def writeUint16_def)

lemma writeUint16_append: "writeUint16 b v = b @ uint16Bytes v"
  by (simp add: uint16Bytes_def writeUint16_def)

lemma readUint16_uint16Bytes: "readUint16 (uint16Bytes v @ rest) = (v, None, rest)"
  by (simp add: readUint16_def uint16Bytes_def writeUint16_def uint16_of_bytes)

lemma unat_of_nat_uint16: "n \<le> 65535 \<Longrightarrow> unat (of_nat n :: uint16) = n"
  by (simp add: unat_of_nat)

lemma length_lpBytes [simp]: "length (lpBytes xs) = 2 + length xs"
  by (simp add: lpBytes_def writeUint16_def)

lemma lpBytes_eq: "lpBytes xs = uint16Bytes (of_nat (length xs)) @ xs"
  by (simp add: lpBytes_def uint16Bytes_def)

lemma writeLPBytes_ok:
  "length xs \<le> maxLPString \<Longrightarrow> writeLPBytes b xs = (b @ lpBytes xs, 2 + length xs, None)"
  by (simp add: writeLPBytes_def lpBytes_def writeUint16_def)

lemma writeLPBytes_too_long:
  "length xs > maxLPString \<Longrightarrow> writeLPBytes b xs = (b, 0, Some ErrLengthGreaterThanMax)"
  by (simp add: writeLPBytes_def)

lemma readLPBytes_lpBytes:
  "length xs \<le> maxLPString \<Longrightarrow> readLPBytes (lpBytes xs @ rest) = (xs, 2 + length xs, None, rest)"
  by (simp add: readLPBytes_def lpBytes_eq readUint16_uint16Bytes unat_of_nat_uint16 maxLPString_def)

subsection \<open>The fixed header on a well-formed packet\<close>

lemma CopyN_exact: "CopyN [] (body @ sfx) (int (length body)) = (body, sfx, length body, None)"
  by (simp add: CopyN_def)

lemma fixedHeader_Decode_wellformed:
  assumes "Valid (mtype h)" "drop_bit 4 b = mtype h"
    "mtype h \<noteq> PUBLISH \<longrightarrow> b AND 0x0f = DefaultFlags (mtype h)"
    "mtype h = PUBLISH \<longrightarrow> ValidQos (drop_bit 1 (b AND 0x0f) AND 0x3)"
    "int (length body) \<le> maxRemainingLength"
  shows "fixedHeader_Decode h (b # writeVarint32_loop (int (length body)) @ body @ sfx) =
     (h\<lparr>flags := b AND 0x0f, remlen := int (length body), buf := body\<rparr>, sfx,
      1 + length (writeVarint32_loop (int (length body))), None)"
proof -
  have rv: "readVarint32 (Some []) (writeVarint32_loop (int (length body)) @ body @ sfx) =
      (int (length body), length (writeVarint32_loop (int (length body))), None,
       Some (writeVarint32_loop (int (length body))), body @ sfx)"
    using readVarint32_writeVarint32_loop [of "int (length body)" "Some []" "body @ sfx"] assms(5)
    by simp
  show ?thesis
    unfolding fixedHeader_Decode_body [OF assms(1-4)] rv
    by (simp add: CopyN_exact)
qed

lemma Valid_CONNECT: "Valid CONNECT"
  by (simp add: Valid_def MessageType_defs)

lemma fixedHeader_Decode_CONNECT:
  assumes "mtype h = CONNECT" "int (length body) \<le> maxRemainingLength"
  shows "fixedHeader_Decode h (0x10 # writeVarint32_loop (int (length body)) @ body @ sfx) =
     (h\<lparr>flags := 0, remlen := int (length body), buf := body\<rparr>, sfx,
      1 + length (writeVarint32_loop (int (length body))), None)"
proof -
  have "fixedHeader_Decode h (0x10 # writeVarint32_loop (int (length body)) @ body @ sfx) =
     (h\<lparr>flags := 0x10 AND 0x0f, remlen := int (length body), buf := body\<rparr>, sfx,
      1 + length (writeVarint32_loop (int (length body))), None)"
    by (rule fixedHeader_Decode_wellformed)
       (simp_all add: assms Valid_CONNECT, simp_all add: MessageType_defs DefaultFlags_def)
  then show ?thesis by simp
qed

subsection \<open>The connect flags as bits\<close>

lemma byte_bit_test: "(drop_bit k (w :: byte) AND 0x1 = 1) \<longleftrightarrow> bit w k"
  by (simp add: and_one_eq bit_iff_odd_drop_bit mod_2_eq_odd)

lemma byte_bit0_test: "((w :: byte) AND 0x1 = 0) \<longleftrightarrow> \<not> bit w 0"
  by (simp add: and_one_eq bit_0 mod_2_eq_odd)

lemma UsernameFlag_bit: "UsernameFlag m \<longleftrightarrow> bit (connectFlags m) 7"
  by (simp add: UsernameFlag_def byte_bit_test)

lemma PasswordFlag_bit: "PasswordFlag m \<longleftrightarrow> bit (connectFlags m) 6"
  by (simp add: PasswordFlag_def byte_bit_test)

lemma WillRetain_bit: "WillRetain m \<longleftrightarrow> bit (connectFlags m) 5"
  by (simp add: WillRetain_def byte_bit_test)

lemma WillFlag_bit: "WillFlag m \<longleftrightarrow> bit (connectFlags m) 2"
  by (simp add: WillFlag_def byte_bit_test)

lemma CleanSession_bit: "CleanSession m \<longleftrightarrow> bit (connectFlags m) 1"
  by (simp add: CleanSession_def byte_bit_test)

lemma two_bits_cases:
  "(w :: byte) AND 0x3 = (if bit w 1 then 2 else 0) + (if bit w 0 then 1 else 0)"
proof -
  have "w AND 0x3 = take_bit 2 w" by (simp add: take_bit_eq_mask mask_eq_exp_minus_1)
  also have "\<dots> = (if bit w 1 then 2 else 0) + (if bit w 0 then 1 else 0)"
    by (rule bit_word_eqI) (auto simp add: bit_simps bit_0 less_Suc_eq numeral_2_eq_2 bit_Suc)
  finally show ?thesis .
qed

lemma WillQos_cases:
  "WillQos m = (if bit (connectFlags m) 4 then 2 else 0) + (if bit (connectFlags m) 3 then 1 else 0)"
  by (simp add: WillQos_def two_bits_cases bit_simps)

lemma WillQos_invalid_bit: "WillQos m > QosExactlyOnce \<longleftrightarrow> bit (connectFlags m) 4 \<and> bit (connectFlags m) 3"
  by (simp add: WillQos_cases QosExactlyOnce_def)

lemma WillQos_nonzero_bit: "WillQos m \<noteq> QosAtMostOnce \<longleftrightarrow> bit (connectFlags m) 4 \<or> bit (connectFlags m) 3"
  by (simp add: WillQos_cases QosAtMostOnce_def)

subsection \<open>The stages of the CONNECT decoder on their wire images\<close>

lemma SupportedVersions_length: "SupportedVersions v = Some s \<Longrightarrow> length s \<le> maxLPString"
  by (auto simp add: SupportedVersions_def maxLPString_def split: if_splits)

lemma decodeMessage_flags_wire:
  assumes "buf m = lpBytes verstr @ v # f # rest" "SupportedVersions v = Some verstr"
  shows "decodeMessage_flags m =
     (m\<lparr>protoName := verstr, version := v, connectFlags := f, buf := rest\<rparr>,
      2 + length verstr + 1 + 1,
      if bit f 0 then Some ErrConnectReservedBit
      else if bit f 4 \<and> bit f 3 then Some ErrConnectInvalidWillQos
      else if \<not> bit f 2 \<and> (bit f 5 \<or> bit f 4 \<or> bit f 3) then Some ErrConnectWillViolation
      else if bit f 7 \<and> \<not> bit f 6 then Some ErrConnectUsernameWithoutPassword
      else None)"
proof -
  have rl: "readLPBytes (buf m) = (verstr, 2 + length verstr, None, v # f # rest)"
    unfolding assms(1) by (rule readLPBytes_lpBytes) (rule SupportedVersions_length [OF assms(2)])
  show ?thesis
    unfolding decodeMessage_flags_def rl
    by (auto simp add: assms(2) Let_def byte_bit0_test WillQos_invalid_bit WillQos_nonzero_bit
        WillFlag_bit WillRetain_bit UsernameFlag_bit PasswordFlag_bit)
qed

lemma readLPBytes_error:
  "readLPBytes b = (xs, n, Some e, b') \<Longrightarrow> e = ErrInsufficientBufferSize"
  by (auto simp add: readLPBytes_def readUint16_def split: if_splits)

lemma decodeMessage_clientId_wire:
  assumes "buf m = uint16Bytes k @ lpBytes cid @ rest" "length cid \<le> maxLPString"
  shows "decodeMessage_clientId m tot =
     (m\<lparr>keepAlive := k, clientId := cid, buf := rest\<rparr>, tot + 2 + (2 + length cid),
      if cid = [] \<and> \<not> bit (connectFlags m) 1 then Some ErrConnackIdentifierRejected
      else if cid \<noteq> [] \<and> \<not> ValidClientId cid then Some ErrConnackIdentifierRejected
      else None)"
proof -
  have ru: "readUint16 (buf m) = (k, None, lpBytes cid @ rest)"
    unfolding assms(1) by (rule readUint16_uint16Bytes)
  have rl: "readLPBytes (lpBytes cid @ rest) = (cid, 2 + length cid, None, rest)"
    by (rule readLPBytes_lpBytes) (rule assms(2))
  show ?thesis
    unfolding decodeMessage_clientId_def ru
    by (auto simp add: rl Let_def CleanSession_bit)
qed

lemma decodeMessage_will_error:
  "decodeMessage_will m tot = (m', n, Some e) \<Longrightarrow> e = ErrInsufficientBufferSize"
  by (auto simp add: decodeMessage_will_def Let_def split: if_splits prod.splits option.splits
      dest: readLPBytes_error)

lemma decodeMessage_username_error:
  "decodeMessage_username m tot = (m', n, Some e) \<Longrightarrow> e = ErrInsufficientBufferSize"
  by (auto simp add: decodeMessage_username_def split: if_splits prod.splits option.splits
      dest: readLPBytes_error)

lemma decodeMessage_password_error:
  "decodeMessage_password m tot = (m', n, Some e) \<Longrightarrow> e = ErrInsufficientBufferSize"
  by (auto simp add: decodeMessage_password_def split: if_splits prod.splits option.splits
      dest: readLPBytes_error)

text \<open>The part of \<open>decodeMessage\<close> after the client identifier.\<close>

lemma decodeMessage_tail_error:
  assumes "decodeMessage_flags m = (m1, t1, None)" "decodeMessage_clientId m1 t1 = (m2, t2, None)"
    "decodeMessage m = (m', n, Some e)"
  shows "e = ErrInsufficientBufferSize \<or> e = ErrConnectInvalidBufferSize"
  using assms
  by (auto simp add: decodeMessage_def split: prod.splits option.splits if_splits
      dest: decodeMessage_will_error decodeMessage_username_error decodeMessage_password_error)

lemma decodeMessage_flags_stop:
  "decodeMessage_flags m = (m1, t1, Some e) \<Longrightarrow> decodeMessage m = (m1, t1, Some e)"
  by (simp add: decodeMessage_def)

lemma decodeMessage_clientId_stop:
  "decodeMessage_flags m = (m1, t1, None) \<Longrightarrow> decodeMessage_clientId m1 t1 = (m2, t2, Some e) \<Longrightarrow>
   decodeMessage m = (m2, t2, Some e)"
  by (simp add: decodeMessage_def)

lemma readUint16_error:
  "readUint16 b = (v, Some e, b') \<Longrightarrow> e = ErrInsufficientBufferSize"
  by (auto simp add: readUint16_def split: if_splits)

lemma decodeMessage_clientId_error:
  "decodeMessage_clientId m tot = (m', n, Some e) \<Longrightarrow>
     e = ErrInsufficientBufferSize \<or> e = ErrConnackIdentifierRejected"
  by (auto simp add: decodeMessage_clientId_def Let_def split: if_splits prod.splits option.splits
      dest: readLPBytes_error readUint16_error)

lemma decodeMessage_after_flags_error:
  assumes "decodeMessage_flags m = (m1, t1, None)" "decodeMessage m = (m', n, Some e)"
  shows "e = ErrInsufficientBufferSize \<or> e = ErrConnackIdentifierRejected \<or>
         e = ErrConnectInvalidBufferSize"
proof -
  obtain m2 t2 e2 where c: "decodeMessage_clientId m1 t1 = (m2, t2, e2)"
    by (metis prod_cases3)
  show ?thesis
  proof (cases e2)
    case None
    then show ?thesis using decodeMessage_tail_error [OF assms(1) _ assms(2)] c by blast
  next
    case (Some e')
    then have "decodeMessage m = (m2, t2, Some e')"
      using decodeMessage_clientId_stop [OF assms(1)] c by simp
    then have "e = e'" using assms(2) by simp
    then show ?thesis using decodeMessage_clientId_error c Some by blast
  qed
qed

text \<open>
  Claim C2, as the code has it. The guard of \<open>decodeMessage\<close> is
  \<open>UsernameFlag && !PasswordFlag\<close>: a CONNECT packet whose connect flags pass the
  reserved-bit and will checks is rejected when the user name flag (bit 7) is set and the
  password flag (bit 6) is unset, and it is not rejected for its flags when the password
  flag is set and the user name flag is unset: then the only errors left are those of the
  fields that follow the flags.
\<close>

theorem C2_username_without_password_rejected:
  fixes m :: ConnectMessage
  assumes "mtype m = CONNECT"
    and "SupportedVersions v = Some verstr"
    and "body = lpBytes verstr @ v # f # rest"
    and "int (length body) \<le> maxRemainingLength"
    and "\<not> bit f 0" and "\<not> (bit f 4 \<and> bit f 3)" and "bit f 2 \<or> \<not> (bit f 5 \<or> bit f 4 \<or> bit f 3)"
  shows "case ConnectMessage_Decode m (0x10 # writeVarint32_loop (int (length body)) @ body @ sfx) of
      (m', src', n, err) \<Rightarrow>
        (bit f 7 \<and> \<not> bit f 6 \<longrightarrow> err = Some ErrConnectUsernameWithoutPassword) \<and>
        (bit f 6 \<and> \<not> bit f 7 \<longrightarrow>
           err \<in> {None, Some ErrInsufficientBufferSize, Some ErrConnackIdentifierRejected,
                  Some ErrConnectInvalidBufferSize})"
proof -
  let ?src = "0x10 # writeVarint32_loop (int (length body)) @ body @ sfx"
  let ?h = "m\<lparr>flags := 0, remlen := int (length body), buf := body\<rparr>"
  let ?n = "1 + length (writeVarint32_loop (int (length body)))"
  have hd: "fixedHeader_Decode m ?src = (?h, sfx, ?n, None)"
    by (rule fixedHeader_Decode_CONNECT) (rule assms)+
  have bh: "buf ?h = lpBytes verstr @ v # f # rest" using assms(3) by simp
  note fl = decodeMessage_flags_wire [OF bh assms(2)]
  obtain m' n' e' where dm: "decodeMessage ?h = (m', n', e')" by (metis prod_cases3)
  have res: "ConnectMessage_Decode m ?src = (m', sfx, ?n + n', e')"
    unfolding ConnectMessage_Decode_def hd using dm by (cases e') simp_all
  have a: "e' = Some ErrConnectUsernameWithoutPassword" if "bit f 7 \<and> \<not> bit f 6"
  proof -
    have "decodeMessage_flags ?h =
        (?h\<lparr>protoName := verstr, version := v, connectFlags := f, buf := rest\<rparr>,
         2 + length verstr + 1 + 1, Some ErrConnectUsernameWithoutPassword)"
      unfolding fl using that assms(5-7) by auto
    from decodeMessage_flags_stop [OF this] dm show ?thesis by simp
  qed
  have b: "e' \<in> {None, Some ErrInsufficientBufferSize, Some ErrConnackIdentifierRejected,
                  Some ErrConnectInvalidBufferSize}" if "bit f 6 \<and> \<not> bit f 7"
  proof (cases e')
    case None
    then show ?thesis by simp
  next
    case (Some e)
    have "decodeMessage_flags ?h =
        (?h\<lparr>protoName := verstr, version := v, connectFlags := f, buf := rest\<rparr>,
         2 + length verstr + 1 + 1, None)"
      unfolding fl using that assms(5-7) by auto
    from decodeMessage_after_flags_error [OF this] dm Some show ?thesis by auto
  qed
  show ?thesis unfolding res using a b by simp
qed

theorem C2_username_without_password_rejected_witness:
  "(mtype NewConnectMessage = CONNECT \<and>
    SupportedVersions 4 = Some [0x4D, 0x51, 0x54, 0x54] \<and>
    int (length (lpBytes [0x4D, 0x51, 0x54, 0x54] @ 4 # 0x82 # [0, 10, 0, 3, 0x61, 0x62, 0x63, 0, 1, 0x75]))
      \<le> maxRemainingLength \<and>
    \<not> bit (0x82 :: byte) 0 \<and> \<not> (bit (0x82 :: byte) 4 \<and> bit (0x82 :: byte) 3) \<and>
    (bit (0x82 :: byte) 2 \<or> \<not> (bit (0x82 :: byte) 5 \<or> bit (0x82 :: byte) 4 \<or> bit (0x82 :: byte) 3)) \<and>
    bit (0x82 :: byte) 7 \<and> \<not> bit (0x82 :: byte) 6 \<and>
    (case ConnectMessage_Decode NewConnectMessage
            [0x10, 18, 0, 4, 0x4D, 0x51, 0x54, 0x54, 4, 0x82, 0, 10, 0, 3, 0x61, 0x62, 0x63, 0, 1, 0x75] of
       (m', src', n, err) \<Rightarrow> err = Some ErrConnectUsernameWithoutPassword))
   \<and>
   (int (length (lpBytes [0x4D, 0x51, 0x54, 0x54] @ 4 # 0x42 # [0, 10, 0, 3, 0x61, 0x62, 0x63, 0, 2, 0x70, 0x77]))
      \<le> maxRemainingLength \<and>
    \<not> bit (0x42 :: byte) 0 \<and> \<not> (bit (0x42 :: byte) 4 \<and> bit (0x42 :: byte) 3) \<and>
    (bit (0x42 :: byte) 2 \<or> \<not> (bit (0x42 :: byte) 5 \<or> bit (0x42 :: byte) 4 \<or> bit (0x42 :: byte) 3)) \<and>
    bit (0x42 :: byte) 6 \<and> \<not> bit (0x42 :: byte) 7 \<and>
    (case ConnectMessage_Decode NewConnectMessage
            [0x10, 19, 0, 4, 0x4D, 0x51, 0x54, 0x54, 4, 0x42, 0, 10, 0, 3, 0x61, 0x62, 0x63,
             0, 2, 0x70, 0x77] of
       (m', src', n, err) \<Rightarrow>
         err \<in> {None, Some ErrInsufficientBufferSize, Some ErrConnackIdentifierRejected,
                Some ErrConnectInvalidBufferSize}))"
proof -
  let ?body = "lpBytes [0x4D, 0x51, 0x54, 0x54] @ 4 # 0x82 # [0, 10, 0, 3, 0x61, 0x62, 0x63, 0, 1, 0x75]"
  let ?body2 = "lpBytes [0x4D, 0x51, 0x54, 0x54] @ 4 # 0x42 # [0, 10, 0, 3, 0x61, 0x62, 0x63, 0, 2, 0x70, 0x77]"
  have h1: "mtype NewConnectMessage = CONNECT"
    by (simp add: NewConnectMessage_def SetType_def MessageType_defs)
  have h2: "SupportedVersions 4 = Some [0x4D, 0x51, 0x54, 0x54]"
    by (simp add: SupportedVersions_def)
  have h4: "int (length ?body) \<le> maxRemainingLength"
    by (simp add: maxRemainingLength_def)
  have h5: "\<not> bit (0x82 :: byte) 0" by simp
  have h6: "\<not> (bit (0x82 :: byte) 4 \<and> bit (0x82 :: byte) 3)" by simp
  have h7: "bit (0x82 :: byte) 2 \<or> \<not> (bit (0x82 :: byte) 5 \<or> bit (0x82 :: byte) 4 \<or> bit (0x82 :: byte) 3)"
    by simp
  have h8: "bit (0x82 :: byte) 7 \<and> \<not> bit (0x82 :: byte) 6" by simp
  have src: "0x10 # writeVarint32_loop (int (length ?body)) @ ?body @ [] =
      [0x10, 18, 0, 4, 0x4D, 0x51, 0x54, 0x54, 4, 0x82, 0, 10, 0, 3, 0x61, 0x62, 0x63, 0, 1, 0x75]"
    by (simp add: lpBytes_def writeUint16_def writeVarint32_loop.simps)
  have "case ConnectMessage_Decode NewConnectMessage
           (0x10 # writeVarint32_loop (int (length ?body)) @ ?body @ []) of
      (m', src', n, err) \<Rightarrow>
        (bit (0x82 :: byte) 7 \<and> \<not> bit (0x82 :: byte) 6 \<longrightarrow> err = Some ErrConnectUsernameWithoutPassword) \<and>
        (bit (0x82 :: byte) 6 \<and> \<not> bit (0x82 :: byte) 7 \<longrightarrow>
           err \<in> {None, Some ErrInsufficientBufferSize, Some ErrConnackIdentifierRejected,
                  Some ErrConnectInvalidBufferSize})"
    by (rule C2_username_without_password_rejected [OF h1 h2 refl h4 h5 h6 h7])
  then have r1: "case ConnectMessage_Decode NewConnectMessage
           [0x10, 18, 0, 4, 0x4D, 0x51, 0x54, 0x54, 4, 0x82, 0, 10, 0, 3, 0x61, 0x62, 0x63, 0, 1, 0x75] of
      (m', src', n, err) \<Rightarrow> err = Some ErrConnectUsernameWithoutPassword"
    unfolding src using h8 by (auto split: prod.splits)
  have g4: "int (length ?body2) \<le> maxRemainingLength"
    by (simp add: maxRemainingLength_def)
  have g5: "\<not> bit (0x42 :: byte) 0" by simp
  have g6: "\<not> (bit (0x42 :: byte) 4 \<and> bit (0x42 :: byte) 3)" by simp
  have g7: "bit (0x42 :: byte) 2 \<or> \<not> (bit (0x42 :: byte) 5 \<or> bit (0x42 :: byte) 4 \<or> bit (0x42 :: byte) 3)"
    by simp
  have g8: "bit (0x42 :: byte) 6 \<and> \<not> bit (0x42 :: byte) 7" by simp
  have src2: "0x10 # writeVarint32_loop (int (length ?body2)) @ ?body2 @ [] =
      [0x10, 19, 0, 4, 0x4D, 0x51, 0x54, 0x54, 4, 0x42, 0, 10, 0, 3, 0x61, 0x62, 0x63,
       0, 2, 0x70, 0x77]"
    by (simp add: lpBytes_def writeUint16_def writeVarint32_loop.simps)
  have "case ConnectMessage_Decode NewConnectMessage
           (0x10 # writeVarint32_loop (int (length ?body2)) @ ?body2 @ []) of
      (m', src', n, err) \<Rightarrow>
        (bit (0x42 :: byte) 7 \<and> \<not> bit (0x42 :: byte) 6 \<longrightarrow> err = Some ErrConnectUsernameWithoutPassword) \<and>
        (bit (0x42 :: byte) 6 \<and> \<not> bit (0x42 :: byte) 7 \<longrightarrow>
           err \<in> {None, Some ErrInsufficientBufferSize, Some ErrConnackIdentifierRejected,
                  Some ErrConnectInvalidBufferSize})"
    by (rule C2_username_without_password_rejected [OF h1 h2 refl g4 g5 g6 g7])
  then have r2: "case ConnectMessage_Decode NewConnectMessage
           [0x10, 19, 0, 4, 0x4D, 0x51, 0x54, 0x54, 4, 0x42, 0, 10, 0, 3, 0x61, 0x62, 0x63,
            0, 2, 0x70, 0x77] of
      (m', src', n, err) \<Rightarrow>
         err \<in> {None, Some ErrInsufficientBufferSize, Some ErrConnackIdentifierRejected,
                Some ErrConnectInvalidBufferSize}"
    unfolding src2 using g8 by (auto split: prod.splits)
  show ?thesis using h1 h2 h4 h5 h6 h7 h8 r1 g4 g5 g6 g7 g8 r2 by blast
qed

text \<open>
  Claim C2 as stated: a packet with the password flag set and the user name flag unset is
  decoded without error, and a packet with the user name flag set and the password flag
  unset is rejected for that combination.
\<close>

theorem C2_counterexample:
  "(case ConnectMessage_Decode NewConnectMessage
           [0x10, 19, 0, 4, 0x4D, 0x51, 0x54, 0x54, 4, 0x42, 0, 10, 0, 3, 0x61, 0x62, 0x63,
            0, 2, 0x70, 0x77] of
      (m', src', n, err) \<Rightarrow>
        err = None \<and> PasswordFlag m' \<and> \<not> UsernameFlag m' \<and> password m' = [0x70, 0x77])
   \<and> (case ConnectMessage_Decode NewConnectMessage
           [0x10, 18, 0, 4, 0x4D, 0x51, 0x54, 0x54, 4, 0x82, 0, 10, 0, 3, 0x61, 0x62, 0x63,
            0, 1, 0x75] of
      (m', src', n, err) \<Rightarrow>
        err = Some ErrConnectUsernameWithoutPassword \<and> UsernameFlag m' \<and> \<not> PasswordFlag m')"
  by (simp add: eval_defs connect_defs)

subsection \<open>SUBSCRIBE: the decoding loop on a payload image\<close>

lemma SubscribeMessage_Decode_loop_payload:
  assumes "\<forall>p \<in> set pairs. length (fst p) \<le> maxLPString"
    and "buf m = subscribePayload pairs"
  shows "case SubscribeMessage_Decode_loop m tot of
      (m', n, err) \<Rightarrow>
        err = None \<and> n = tot + length (subscribePayload pairs) \<and> buf m' = [] \<and>
        SubscribeMessage.topics m' = SubscribeMessage.topics m @ map fst pairs \<and> qos m' = qos m @ map snd pairs \<and>
        SubscribeMessage.packetId m' = SubscribeMessage.packetId m \<and>
        mtype m' = mtype m \<and> flags m' = flags m \<and> remlen m' = remlen m"
  using assms
proof (induction pairs arbitrary: m tot)
  case Nil
  then show ?case
    by (subst SubscribeMessage_Decode_loop.simps) (simp add: subscribePayload_def)
next
  case (Cons p pairs)
  obtain t q where p: "p = (t, q)" by (cases p)
  have lt: "length t \<le> maxLPString" using Cons.prems(1) p by simp
  have bm: "buf m = lpBytes t @ q # subscribePayload pairs"
    using Cons.prems(2) p by (simp add: subscribePayload_def)
  have rl: "readLPBytes (buf m) = (t, 2 + length t, None, q # subscribePayload pairs)"
    unfolding bm by (rule readLPBytes_lpBytes) (rule lt)
  let ?m2 = "m\<lparr>buf := q # subscribePayload pairs, SubscribeMessage.topics := SubscribeMessage.topics m @ [t]\<rparr>
              \<lparr>buf := subscribePayload pairs, qos := qos m @ [q]\<rparr>"
  have step: "SubscribeMessage_Decode_loop m tot =
      SubscribeMessage_Decode_loop ?m2 (tot + (2 + length t) + 1)"
    by (subst SubscribeMessage_Decode_loop.simps) (simp add: bm rl [unfolded bm])
  have ih: "case SubscribeMessage_Decode_loop ?m2 (tot + (2 + length t) + 1) of
      (m', n, err) \<Rightarrow>
        err = None \<and> n = (tot + (2 + length t) + 1) + length (subscribePayload pairs) \<and> buf m' = [] \<and>
        SubscribeMessage.topics m' = SubscribeMessage.topics ?m2 @ map fst pairs \<and> qos m' = qos ?m2 @ map snd pairs \<and>
        SubscribeMessage.packetId m' = SubscribeMessage.packetId ?m2 \<and>
        mtype m' = mtype ?m2 \<and> flags m' = flags ?m2 \<and> remlen m' = remlen ?m2"
    by (rule Cons.IH) (use Cons.prems(1) in simp_all)
  show ?case
    unfolding step using ih p
    by (auto simp add: subscribePayload_def split: prod.splits)
qed

lemma fixedHeader_Decode_SUBSCRIBE:
  assumes "mtype h = SUBSCRIBE" "int (length body) \<le> maxRemainingLength"
  shows "fixedHeader_Decode h (0x82 # writeVarint32_loop (int (length body)) @ body @ sfx) =
     (h\<lparr>flags := 2, remlen := int (length body), buf := body\<rparr>, sfx,
      1 + length (writeVarint32_loop (int (length body))), None)"
proof -
  have "fixedHeader_Decode h (0x82 # writeVarint32_loop (int (length body)) @ body @ sfx) =
     (h\<lparr>flags := 0x82 AND 0x0f, remlen := int (length body), buf := body\<rparr>, sfx,
      1 + length (writeVarint32_loop (int (length body))), None)"
    by (rule fixedHeader_Decode_wellformed)
       (simp_all add: assms, simp_all add: Valid_def MessageType_defs DefaultFlags_def)
  then show ?thesis by simp
qed

text \<open>
  Claim C9. \<open>SubscribeMessage.Decode\<close> stores every requested-QoS byte as it is: a
  SUBSCRIBE packet that passes the fixed-header checks and holds any list of (topic, QoS
  byte) pairs decodes without error, whatever the QoS bytes are, and the QoS list of the
  message is extended by exactly those bytes. \<open>AddTopic\<close>, in contrast, rejects every
  QoS other than 0, 1 and 2 (3 and 0xFF among them) and leaves the message unchanged.
\<close>

theorem C9_subscribe_decode_keeps_any_qos:
  fixes m :: SubscribeMessage
  assumes "mtype m = SUBSCRIBE"
    and "pairs \<noteq> []"
    and "\<forall>p \<in> set pairs. length (fst p) \<le> maxLPString"
    and "body = uint16Bytes pid @ subscribePayload pairs"
    and "int (length body) \<le> maxRemainingLength"
  shows "(case SubscribeMessage_Decode m (0x82 # writeVarint32_loop (int (length body)) @ body @ sfx) of
      (m', src', n, err) \<Rightarrow>
        err = None \<and> src' = sfx \<and>
        n = 1 + length (writeVarint32_loop (int (length body))) + length body \<and>
        SubscribeMessage.packetId m' = pid \<and>
        SubscribeMessage.topics m' = SubscribeMessage.topics m @ map fst pairs \<and>
        qos m' = qos m @ map snd pairs)
    \<and> (\<forall>m0 t q. \<not> ValidQos q \<longrightarrow> SubscribeMessage_AddTopic m0 t q = (m0, Some ErrSubscribeInvalidQos))
    \<and> \<not> ValidQos 3 \<and> \<not> ValidQos 0xFF
    \<and> (\<forall>q. ValidQos q \<longleftrightarrow> q = 0 \<or> q = 1 \<or> q = 2)"
proof -
  let ?src = "0x82 # writeVarint32_loop (int (length body)) @ body @ sfx"
  let ?n = "1 + length (writeVarint32_loop (int (length body)))"
  let ?h = "m\<lparr>flags := 2, remlen := int (length body), buf := body\<rparr>"
  let ?m1 = "?h\<lparr>SubscribeMessage.packetId := pid, buf := subscribePayload pairs\<rparr>"
  have hd: "fixedHeader_Decode m ?src = (?h, sfx, ?n, None)"
    by (rule fixedHeader_Decode_SUBSCRIBE) (rule assms)+
  have ru: "readUint16 (buf ?h) = (pid, None, subscribePayload pairs)"
    using assms(4) by (simp add: readUint16_uint16Bytes)
  obtain m' n' e' where lp: "SubscribeMessage_Decode_loop ?m1 (?n + 2) = (m', n', e')"
    by (metis prod_cases3)
  have b1: "buf ?m1 = subscribePayload pairs" by simp
  note l = SubscribeMessage_Decode_loop_payload [OF assms(3) b1, of "?n + 2"]
  have e: "e' = None" and n: "n' = ?n + 2 + length (subscribePayload pairs)"
    and t: "SubscribeMessage.topics m' = SubscribeMessage.topics m @ map fst pairs"
    and q: "qos m' = qos m @ map snd pairs"
    and p: "SubscribeMessage.packetId m' = pid"
    using l unfolding lp by simp_all
  have ne: "length (SubscribeMessage.topics m') \<noteq> 0" using t assms(2) by simp
  have res: "SubscribeMessage_Decode m ?src = (m', sfx, n', None)"
    unfolding SubscribeMessage_Decode_def hd using ru lp e ne by simp
  have len: "length body = 2 + length (subscribePayload pairs)" using assms(4) by simp
  have A: "case SubscribeMessage_Decode m ?src of
      (m', src', n, err) \<Rightarrow>
        err = None \<and> src' = sfx \<and> n = ?n + length body \<and>
        SubscribeMessage.packetId m' = pid \<and>
        SubscribeMessage.topics m' = SubscribeMessage.topics m @ map fst pairs \<and>
        qos m' = qos m @ map snd pairs"
    unfolding res using n t q p len by simp
  have B: "\<forall>m0 t q. \<not> ValidQos q \<longrightarrow> SubscribeMessage_AddTopic m0 t q = (m0, Some ErrSubscribeInvalidQos)"
    by (simp add: SubscribeMessage_AddTopic_def)
  have C: "\<not> ValidQos 3 \<and> \<not> ValidQos 0xFF"
    by (simp add: ValidQos_def QosAtMostOnce_def QosAtLeastOnce_def QosExactlyOnce_def)
  have D: "\<forall>q. ValidQos q \<longleftrightarrow> q = 0 \<or> q = 1 \<or> q = 2"
    by (simp add: ValidQos_def QosAtMostOnce_def QosAtLeastOnce_def QosExactlyOnce_def)
  show ?thesis using A B C D by blast
qed

theorem C9_subscribe_decode_keeps_any_qos_witness:
  "mtype NewSubscribeMessage = SUBSCRIBE \<and>
   list_all (\<lambda>p. length (fst p) \<le> maxLPString) ([([0x61], 3), ([0x62], 0xFF)] :: (byte list \<times> byte) list) \<and>
   (case SubscribeMessage_Decode NewSubscribeMessage
           [0x82, 10, 0, 7, 0, 1, 0x61, 3, 0, 1, 0x62, 0xFF] of
      (m', src', n, err) \<Rightarrow>
        err = None \<and> src' = [] \<and> n = 12 \<and> SubscribeMessage.packetId m' = 7 \<and>
        SubscribeMessage.topics m' = [[0x61], [0x62]] \<and> qos m' = [3, 0xFF])"
proof -
  let ?pairs = "[([0x61], 3), ([0x62], 0xFF)] :: (byte list \<times> byte) list"
  let ?body = "uint16Bytes 7 @ subscribePayload ?pairs"
  have h1: "mtype NewSubscribeMessage = SUBSCRIBE"
    by (simp add: NewSubscribeMessage_def SetType_def MessageType_defs)
  have h2: "?pairs \<noteq> []" by simp
  have h3: "\<forall>p \<in> set ?pairs. length (fst p) \<le> maxLPString" by (simp add: maxLPString_def)
  have bd: "?body = [0, 7, 0, 1, 0x61, 3, 0, 1, 0x62, 0xFF]"
    by (simp add: uint16Bytes_def subscribePayload_def lpBytes_def writeUint16_def)
  have h5: "int (length ?body) \<le> maxRemainingLength"
    unfolding bd by (simp add: maxRemainingLength_def)
  have src: "0x82 # writeVarint32_loop (int (length ?body)) @ ?body @ [] =
      [0x82, 10, 0, 7, 0, 1, 0x61, 3, 0, 1, 0x62, 0xFF]"
    unfolding bd by (simp add: writeVarint32_loop.simps)
  have z: "SubscribeMessage.topics NewSubscribeMessage = [] \<and> qos NewSubscribeMessage = []"
    by (simp add: NewSubscribeMessage_def SetType_def MessageType_defs)
  have ln: "1 + length (writeVarint32_loop (int (length ?body))) + length ?body = 12"
    unfolding bd by (simp add: writeVarint32_loop.simps)
  have "case SubscribeMessage_Decode NewSubscribeMessage
           (0x82 # writeVarint32_loop (int (length ?body)) @ ?body @ []) of
      (m', src', n, err) \<Rightarrow>
        err = None \<and> src' = [] \<and>
        n = 1 + length (writeVarint32_loop (int (length ?body))) + length ?body \<and>
        SubscribeMessage.packetId m' = 7 \<and>
        SubscribeMessage.topics m' = SubscribeMessage.topics NewSubscribeMessage @ map fst ?pairs \<and>
        qos m' = qos NewSubscribeMessage @ map snd ?pairs"
    by (rule C9_subscribe_decode_keeps_any_qos [OF h1 h2 h3 refl h5, THEN conjunct1])
  then have "case SubscribeMessage_Decode NewSubscribeMessage
           [0x82, 10, 0, 7, 0, 1, 0x61, 3, 0, 1, 0x62, 0xFF] of
      (m', src', n, err) \<Rightarrow>
        err = None \<and> src' = [] \<and> n = 12 \<and> SubscribeMessage.packetId m' = 7 \<and>
        SubscribeMessage.topics m' = [[0x61], [0x62]] \<and> qos m' = [3, 0xFF]"
    unfolding src ln using z by (auto split: prod.splits)
  moreover have "list_all (\<lambda>p. length (fst p) \<le> maxLPString) ?pairs"
    using h3 by (simp add: list_all_iff)
  ultimately show ?thesis using h1 by blast
qed

lemma decodeMessage_continue:
  "decodeMessage_flags m = (m1, t1, None) \<Longrightarrow> decodeMessage_clientId m1 t1 = (m2, t2, None) \<Longrightarrow>
   decodeMessage m = decodeMessage_rest m2 t2"
  by (simp add: decodeMessage_def decodeMessage_rest_def split: prod.split option.split)

lemma decodeMessage_rest_empty:
  assumes "buf m2 = []" "\<not> bit (connectFlags m2) 2"
  shows "decodeMessage_rest m2 tot = (m2, tot, None)"
  using assms
  by (simp add: decodeMessage_rest_def decodeMessage_will_def decodeMessage_username_def
      decodeMessage_password_def WillFlag_bit)

text \<open>
  Claim C5. For a CONNECT packet whose fields before the client identifier pass their
  checks: an empty client identifier with the clean-session bit (bit 1) unset is rejected
  with identifier-rejected; an empty client identifier with the clean-session bit set
  passes the identifier checks, so that decoding goes on with the fields after it exactly
  as \<open>decodeMessage_rest\<close> computes, and the packet is accepted when nothing follows the
  identifier and the will flag is unset; a non-empty client identifier with a byte
  outside \<open>0-9\<close>, \<open>a-z\<close>, \<open>A-Z\<close> is rejected with identifier-rejected, and one made of such
  bytes only passes the identifier checks in the same way.
\<close>

theorem C5_client_identifier:
  fixes m :: ConnectMessage
  assumes "mtype m = CONNECT"
    and "SupportedVersions v = Some verstr"
    and "body = lpBytes verstr @ v # f # uint16Bytes k @ lpBytes cid @ rest"
    and "int (length body) \<le> maxRemainingLength"
    and "length cid \<le> maxLPString"
    and "\<not> bit f 0" and "\<not> (bit f 4 \<and> bit f 3)" and "bit f 2 \<or> \<not> (bit f 5 \<or> bit f 4 \<or> bit f 3)"
    and "\<not> (bit f 7 \<and> \<not> bit f 6)"
  shows "case ConnectMessage_Decode m (0x10 # writeVarint32_loop (int (length body)) @ body @ sfx) of
      (m', src', n, err) \<Rightarrow>
        (cid = [] \<and> \<not> bit f 1 \<longrightarrow> err = Some ErrConnackIdentifierRejected) \<and>
        (cid \<noteq> [] \<and> (\<exists>c \<in> set cid. \<not> clientIdChar c) \<longrightarrow>
           err = Some ErrConnackIdentifierRejected) \<and>
        ((cid = [] \<and> bit f 1) \<or> (cid \<noteq> [] \<and> (\<forall>c \<in> set cid. clientIdChar c)) \<longrightarrow>
           src' = sfx \<and>
           (case decodeMessage_rest
                   (m\<lparr>flags := 0, remlen := int (length body), protoName := verstr, version := v,
                      connectFlags := f, keepAlive := k, clientId := cid, buf := rest\<rparr>)
                   (2 + length verstr + 1 + 1 + 2 + (2 + length cid)) of
              (m3, t3, e3) \<Rightarrow>
                m' = m3 \<and> n = 1 + length (writeVarint32_loop (int (length body))) + t3 \<and> err = e3) \<and>
           (rest = [] \<and> \<not> bit f 2 \<longrightarrow>
              err = None \<and> n = 1 + length (writeVarint32_loop (int (length body))) + length body \<and>
              m' = m\<lparr>flags := 0, remlen := int (length body), protoName := verstr, version := v,
                      connectFlags := f, keepAlive := k, clientId := cid, buf := []\<rparr>))"
proof -
  let ?src = "0x10 # writeVarint32_loop (int (length body)) @ body @ sfx"
  let ?h = "m\<lparr>flags := 0, remlen := int (length body), buf := body\<rparr>"
  let ?n = "1 + length (writeVarint32_loop (int (length body)))"
  let ?m1 = "?h\<lparr>protoName := verstr, version := v, connectFlags := f,
                 buf := uint16Bytes k @ lpBytes cid @ rest\<rparr>"
  let ?t1 = "2 + length verstr + 1 + 1"
  let ?m2 = "?m1\<lparr>keepAlive := k, clientId := cid, buf := rest\<rparr>"
  let ?t2 = "?t1 + 2 + (2 + length cid)"
  let ?e2 = "if cid = [] \<and> \<not> bit f 1 then Some ErrConnackIdentifierRejected
      else if cid \<noteq> [] \<and> \<not> ValidClientId cid then Some ErrConnackIdentifierRejected
      else None"
  let ?M = "m\<lparr>flags := 0, remlen := int (length body), protoName := verstr, version := v,
              connectFlags := f, keepAlive := k, clientId := cid, buf := rest\<rparr>"
  have hd: "fixedHeader_Decode m ?src = (?h, sfx, ?n, None)"
    by (rule fixedHeader_Decode_CONNECT) (rule assms)+
  have bh: "buf ?h = lpBytes verstr @ v # f # uint16Bytes k @ lpBytes cid @ rest"
    using assms(3) by simp
  have fl: "decodeMessage_flags ?h = (?m1, ?t1, None)"
    unfolding decodeMessage_flags_wire [OF bh assms(2)] using assms(6-9) by auto
  have b1: "buf ?m1 = uint16Bytes k @ lpBytes cid @ rest" by simp
  have cl: "decodeMessage_clientId ?m1 ?t1 = (?m2, ?t2, ?e2)"
    unfolding decodeMessage_clientId_wire [OF b1 assms(5)] by simp
  have M: "?m2 = ?M" by simp
  obtain m' n' e' where dm: "decodeMessage ?h = (m', n', e')" by (metis prod_cases3)
  have res: "ConnectMessage_Decode m ?src = (m', sfx, ?n + n', e')"
    unfolding ConnectMessage_Decode_def hd using dm by (cases e') simp_all
  have rej: "e' = Some ErrConnackIdentifierRejected" if "?e2 = Some ErrConnackIdentifierRejected"
  proof -
    have "decodeMessage_clientId ?m1 ?t1 = (?m2, ?t2, Some ErrConnackIdentifierRejected)"
      using cl that by simp
    from decodeMessage_clientId_stop [OF fl this] dm show ?thesis by simp
  qed
  have a: "e' = Some ErrConnackIdentifierRejected" if "cid = [] \<and> \<not> bit f 1"
    using rej that by simp
  have c: "e' = Some ErrConnackIdentifierRejected" if "cid \<noteq> [] \<and> (\<exists>c \<in> set cid. \<not> clientIdChar c)"
  proof -
    have "\<not> ValidClientId cid" using that by (auto simp add: ValidClientId_def list_all_iff)
    then show ?thesis using rej that by simp
  qed
  have pass: "decodeMessage_rest ?M ?t2 = (m', n', e')"
    if "(cid = [] \<and> bit f 1) \<or> (cid \<noteq> [] \<and> (\<forall>c \<in> set cid. clientIdChar c))"
  proof -
    have "?e2 = None" using that by (auto simp add: ValidClientId_def list_all_iff)
    then have "decodeMessage_clientId ?m1 ?t1 = (?m2, ?t2, None)" using cl by simp
    from decodeMessage_continue [OF fl this] dm show ?thesis unfolding M by simp
  qed
  have acc: "e' = None \<and> n' = length body \<and> m' = ?M\<lparr>buf := []\<rparr>"
    if p: "(cid = [] \<and> bit f 1) \<or> (cid \<noteq> [] \<and> (\<forall>c \<in> set cid. clientIdChar c))"
      and r: "rest = [] \<and> \<not> bit f 2"
  proof -
    have "decodeMessage_rest ?M ?t2 = (?M, ?t2, None)"
      by (rule decodeMessage_rest_empty) (use r in simp_all)
    moreover have "?t2 = length body"
      using assms(3) r by simp
    moreover have "?M = ?M\<lparr>buf := []\<rparr>" using r by simp
    ultimately show ?thesis using pass [OF p] by simp
  qed
  show ?thesis
    unfolding res using a c pass acc by (auto simp add: add.assoc)
qed

theorem C5_client_identifier_witness:
  "(\<not> bit (0x00 :: byte) 1 \<and>
    (case ConnectMessage_Decode NewConnectMessage
            [0x10, 12, 0, 4, 0x4D, 0x51, 0x54, 0x54, 4, 0x00, 0, 10, 0, 0] of
       (m', src', n, err) \<Rightarrow> err = Some ErrConnackIdentifierRejected))
   \<and> (bit (0x02 :: byte) 1 \<and>
    (case ConnectMessage_Decode NewConnectMessage
            [0x10, 12, 0, 4, 0x4D, 0x51, 0x54, 0x54, 4, 0x02, 0, 10, 0, 0] of
       (m', src', n, err) \<Rightarrow>
         err = None \<and> src' = [] \<and> n = 14 \<and> clientId m' = [] \<and> CleanSession m' \<and>
         keepAlive m' = 10 \<and> version m' = 4 \<and> buf m' = []))
   \<and> ((\<exists>c \<in> set [0x61, 0x2D, 0x62]. \<not> clientIdChar c) \<and>
    (case ConnectMessage_Decode NewConnectMessage
            [0x10, 15, 0, 4, 0x4D, 0x51, 0x54, 0x54, 4, 0x02, 0, 10, 0, 3, 0x61, 0x2D, 0x62] of
       (m', src', n, err) \<Rightarrow> err = Some ErrConnackIdentifierRejected))
   \<and> (list_all clientIdChar [0x61, 0x62, 0x63] \<and>
    (case ConnectMessage_Decode NewConnectMessage
            [0x10, 15, 0, 4, 0x4D, 0x51, 0x54, 0x54, 4, 0x02, 0, 10, 0, 3, 0x61, 0x62, 0x63] of
       (m', src', n, err) \<Rightarrow>
         err = None \<and> src' = [] \<and> n = 17 \<and> clientId m' = [0x61, 0x62, 0x63] \<and> buf m' = []))"
proof -
  let ?vs = "[0x4D, 0x51, 0x54, 0x54] :: byte list"
  have h1: "mtype NewConnectMessage = CONNECT"
    by (simp add: NewConnectMessage_def SetType_def MessageType_defs)
  have h2: "SupportedVersions 4 = Some ?vs" by (simp add: SupportedVersions_def)
  have k: "uint16Bytes 10 = [0, 10]" by (simp add: uint16Bytes_def writeUint16_def)
  have f0: "\<not> bit (0x00 :: byte) 0" "\<not> (bit (0x00 :: byte) 4 \<and> bit (0x00 :: byte) 3)"
    "bit (0x00 :: byte) 2 \<or> \<not> (bit (0x00 :: byte) 5 \<or> bit (0x00 :: byte) 4 \<or> bit (0x00 :: byte) 3)"
    "\<not> (bit (0x00 :: byte) 7 \<and> \<not> bit (0x00 :: byte) 6)" "\<not> bit (0x00 :: byte) 1"
    by simp_all
  have f2: "\<not> bit (0x02 :: byte) 0" "\<not> (bit (0x02 :: byte) 4 \<and> bit (0x02 :: byte) 3)"
    "bit (0x02 :: byte) 2 \<or> \<not> (bit (0x02 :: byte) 5 \<or> bit (0x02 :: byte) 4 \<or> bit (0x02 :: byte) 3)"
    "\<not> (bit (0x02 :: byte) 7 \<and> \<not> bit (0x02 :: byte) 6)" "bit (0x02 :: byte) 1"
    "\<not> bit (0x02 :: byte) 2"
    by simp_all
  have bad: "\<exists>c \<in> set [0x61, 0x2D, 0x62]. \<not> clientIdChar c"
    by (simp add: clientIdChar_def)
  have good: "\<forall>c \<in> set [0x61, 0x62, 0x63]. clientIdChar c"
    by (simp add: clientIdChar_def)
  let ?b0 = "lpBytes ?vs @ 4 # 0x00 # uint16Bytes 10 @ lpBytes [] @ []"
  let ?b2 = "lpBytes ?vs @ 4 # 0x02 # uint16Bytes 10 @ lpBytes [] @ []"
  let ?b3 = "lpBytes ?vs @ 4 # 0x02 # uint16Bytes 10 @ lpBytes [0x61, 0x2D, 0x62] @ []"
  let ?b4 = "lpBytes ?vs @ 4 # 0x02 # uint16Bytes 10 @ lpBytes [0x61, 0x62, 0x63] @ []"
  have s0: "0x10 # writeVarint32_loop (int (length ?b0)) @ ?b0 @ [] =
      [0x10, 12, 0, 4, 0x4D, 0x51, 0x54, 0x54, 4, 0x00, 0, 10, 0, 0]"
    by (simp add: k lpBytes_def writeUint16_def writeVarint32_loop.simps)
  have s2: "0x10 # writeVarint32_loop (int (length ?b2)) @ ?b2 @ [] =
      [0x10, 12, 0, 4, 0x4D, 0x51, 0x54, 0x54, 4, 0x02, 0, 10, 0, 0]"
    by (simp add: k lpBytes_def writeUint16_def writeVarint32_loop.simps)
  have s3: "0x10 # writeVarint32_loop (int (length ?b3)) @ ?b3 @ [] =
      [0x10, 15, 0, 4, 0x4D, 0x51, 0x54, 0x54, 4, 0x02, 0, 10, 0, 3, 0x61, 0x2D, 0x62]"
    by (simp add: k lpBytes_def writeUint16_def writeVarint32_loop.simps)
  have s4: "0x10 # writeVarint32_loop (int (length ?b4)) @ ?b4 @ [] =
      [0x10, 15, 0, 4, 0x4D, 0x51, 0x54, 0x54, 4, 0x02, 0, 10, 0, 3, 0x61, 0x62, 0x63]"
    by (simp add: k lpBytes_def writeUint16_def writeVarint32_loop.simps)
  have n2: "1 + length (writeVarint32_loop (int (length ?b2))) + length ?b2 = 14"
    by (simp add: writeVarint32_loop.simps)
  have n4: "1 + length (writeVarint32_loop (int (length ?b4))) + length ?b4 = 17"
    by (simp add: writeVarint32_loop.simps)
  have l0: "int (length ?b0) \<le> maxRemainingLength" by (simp add: maxRemainingLength_def)
  have l2: "int (length ?b2) \<le> maxRemainingLength" by (simp add: maxRemainingLength_def)
  have l3: "int (length ?b3) \<le> maxRemainingLength" by (simp add: maxRemainingLength_def)
  have l4: "int (length ?b4) \<le> maxRemainingLength" by (simp add: maxRemainingLength_def)
  have c0: "length ([] :: byte list) \<le> maxLPString" by simp
  have c3: "length ([0x61, 0x2D, 0x62] :: byte list) \<le> maxLPString" by (simp add: maxLPString_def)
  have c4: "length ([0x61, 0x62, 0x63] :: byte list) \<le> maxLPString" by (simp add: maxLPString_def)
  have r0: "case ConnectMessage_Decode NewConnectMessage
            [0x10, 12, 0, 4, 0x4D, 0x51, 0x54, 0x54, 4, 0x00, 0, 10, 0, 0] of
       (m', src', n, err) \<Rightarrow> err = Some ErrConnackIdentifierRejected"
    using C5_client_identifier [OF h1 h2 refl l0 c0 f0(1-4), of "[]"] f0(5)
    unfolding s0 by (auto split: prod.splits)
  have r2: "case ConnectMessage_Decode NewConnectMessage
            [0x10, 12, 0, 4, 0x4D, 0x51, 0x54, 0x54, 4, 0x02, 0, 10, 0, 0] of
       (m', src', n, err) \<Rightarrow>
         err = None \<and> src' = [] \<and> n = 14 \<and> clientId m' = [] \<and> CleanSession m' \<and>
         keepAlive m' = 10 \<and> version m' = 4 \<and> buf m' = []"
    using C5_client_identifier [OF h1 h2 refl l2 c0 f2(1-4), of "[]"] f2(5,6)
    unfolding s2 n2 by (auto simp add: CleanSession_bit split: prod.splits)
  have r3: "case ConnectMessage_Decode NewConnectMessage
            [0x10, 15, 0, 4, 0x4D, 0x51, 0x54, 0x54, 4, 0x02, 0, 10, 0, 3, 0x61, 0x2D, 0x62] of
       (m', src', n, err) \<Rightarrow> err = Some ErrConnackIdentifierRejected"
    using C5_client_identifier [OF h1 h2 refl l3 c3 f2(1-4), of "[]"] bad
    unfolding s3 by (auto split: prod.splits)
  have r4: "case ConnectMessage_Decode NewConnectMessage
            [0x10, 15, 0, 4, 0x4D, 0x51, 0x54, 0x54, 4, 0x02, 0, 10, 0, 3, 0x61, 0x62, 0x63] of
       (m', src', n, err) \<Rightarrow>
         err = None \<and> src' = [] \<and> n = 17 \<and> clientId m' = [0x61, 0x62, 0x63] \<and> buf m' = []"
    using C5_client_identifier [OF h1 h2 refl l4 c4 f2(1-4), of "[]"] good f2(6)
    unfolding s4 n4 by (auto split: prod.splits)
  have good': "list_all clientIdChar [0x61, 0x62, 0x63]" using good by (simp add: list_all_iff)
  show ?thesis using f0(5) r0 f2(5) r2 bad r3 good' r4 by blast
qed

subsection \<open>Encoding: the fixed header and the SUBSCRIBE loop\<close>

lemma fixedHeader_Encode_ok:
  assumes "remlen h \<le> maxRemainingLength" "Valid (mtype h)"
  shows "fixedHeader_Encode h =
     (h\<lparr>buf := headerBytes (mtype h) (flags h) (remlen h)\<rparr>,
      1 + length (writeVarint32_loop (remlen h)), None)"
  using assms
  by (simp add: fixedHeader_Encode_def resetBuf_def writeVarint32_def headerBytes_def Let_def)

lemma fixedHeader_Encode_too_big:
  "remlen h > maxRemainingLength \<Longrightarrow> fixedHeader_Encode h = (h, 0, Some ErrHeaderEncodeRemlenTooBig)"
  by (simp add: fixedHeader_Encode_def)

lemma fixedHeader_Encode_invalid_type:
  "remlen h \<le> maxRemainingLength \<Longrightarrow> \<not> Valid (mtype h) \<Longrightarrow>
   fixedHeader_Encode h = (h, 0, Some ErrHeaderEncodeInvalidType)"
  by (simp add: fixedHeader_Encode_def)

lemma SetRemainingLength_in_range:
  "0 \<le> n \<Longrightarrow> n \<le> maxRemainingLength \<Longrightarrow> SetRemainingLength h n = (h\<lparr>remlen := n\<rparr>, None)"
  by (simp add: SetRemainingLength_def)

lemma SetRemainingLength_out_of_range:
  "n > maxRemainingLength \<or> n < 0 \<Longrightarrow> SetRemainingLength h n = (h, Some ErrHeaderSetLength)"
  by (auto simp add: SetRemainingLength_def)

lemma SubscribeMessage_Encode_loop_ok:
  assumes "\<forall>t \<in> set ts. length t \<le> maxLPString" "length qs = length ts"
  shows "SubscribeMessage_Encode_loop ts qs b tot =
     (b @ subscribePayload (zip ts qs), tot + length (subscribePayload (zip ts qs)), None)"
  using assms
proof (induction ts arbitrary: qs b tot)
  case Nil
  then show ?case by (simp add: subscribePayload_def)
next
  case (Cons t ts)
  then obtain q qs' where qs: "qs = q # qs'" by (cases qs) auto
  have lt: "length t \<le> maxLPString" using Cons.prems(1) by simp
  have ih: "SubscribeMessage_Encode_loop ts qs' b' tot' =
     (b' @ subscribePayload (zip ts qs'), tot' + length (subscribePayload (zip ts qs')), None)"
    for b' tot'
    by (rule Cons.IH) (use Cons.prems qs in simp_all)
  show ?case
    by (simp add: qs writeLPBytes_ok [OF lt] ih subscribePayload_def)
qed

lemma foldl_add_sum: "foldl (\<lambda>tot t. tot + f t) a ts = (a :: nat) + sum_list (map f ts)"
  by (induction ts arbitrary: a) (simp_all add: add.assoc)

lemma SubscribeMessage_size_sum:
  "SubscribeMessage_size m = 2 + sum_list (map (\<lambda>t. 2 + length t + 1) (SubscribeMessage.topics m))"
  unfolding SubscribeMessage_size_def by (rule foldl_add_sum)

lemma length_subscribePayload:
  "length ts = length qs \<Longrightarrow>
   length (subscribePayload (zip ts qs)) = sum_list (map (\<lambda>t. 2 + length t + 1) ts)"
proof (induction ts arbitrary: qs)
  case Nil
  then show ?case by (simp add: subscribePayload_def)
next
  case (Cons t ts)
  then obtain q qs' where qs: "qs = q # qs'" by (cases qs) auto
  have "length (subscribePayload (zip ts qs')) = sum_list (map (\<lambda>t. 2 + length t + 1) ts)"
    by (rule Cons.IH) (use Cons.prems qs in simp)
  then show ?case by (simp add: qs subscribePayload_def)
qed

text \<open>
  \<open>SubscribeMessage.Encode\<close> once the remaining length of the header is known to be
  \<open>r\<close>: \<open>r\<close> is the computed size when \<open>SetRemainingLength\<close> accepts it, and the old
  remaining length when it does not.
\<close>

lemma SubscribeMessage_Encode_result:
  assumes "fst (SetRemainingLength m (int32 (int (SubscribeMessage_size m)))) = m\<lparr>remlen := r\<rparr>"
    and "r \<le> maxRemainingLength" "Valid (mtype m)"
    and "\<forall>t \<in> set (SubscribeMessage.topics m). length t \<le> maxLPString"
    and "length (qos m) = length (SubscribeMessage.topics m)"
  shows "SubscribeMessage_Encode m =
     (m\<lparr>remlen := r,
        buf := headerBytes (mtype m) (flags m) r @ uint16Bytes (SubscribeMessage.packetId m) @
               subscribePayload (zip (SubscribeMessage.topics m) (qos m))\<rparr>,
      1 + length (writeVarint32_loop r) + SubscribeMessage_size m, None)"
proof -
  let ?m1 = "m\<lparr>remlen := r\<rparr>"
  have he: "fixedHeader_Encode ?m1 =
     (?m1\<lparr>buf := headerBytes (mtype m) (flags m) r\<rparr>, 1 + length (writeVarint32_loop r), None)"
    using fixedHeader_Encode_ok [of ?m1] assms(2,3) by simp
  have sz: "SubscribeMessage_size m =
      2 + length (subscribePayload (zip (SubscribeMessage.topics m) (qos m)))"
    using length_subscribePayload [of "SubscribeMessage.topics m" "qos m"] assms(5)
    by (simp add: SubscribeMessage_size_sum)
  show ?thesis
    unfolding SubscribeMessage_Encode_def Let_def
      assms(1) [unfolded SubscribeMessage_size_def] he
    by (simp add: writeUint16_append SubscribeMessage_Encode_loop_ok [OF assms(4) assms(5)] sz)
qed

subsection \<open>Encoding: UNSUBSCRIBE and PUBLISH\<close>

lemma UnsubscribeMessage_Encode_loop_ok:
  assumes "\<forall>t \<in> set ts. length t \<le> maxLPString"
  shows "UnsubscribeMessage_Encode_loop ts b tot =
     (b @ unsubscribePayload ts, tot + length (unsubscribePayload ts), None)"
  using assms
proof (induction ts arbitrary: b tot)
  case Nil
  then show ?case by (simp add: unsubscribePayload_def)
next
  case (Cons t ts)
  have lt: "length t \<le> maxLPString" using Cons.prems(1) by simp
  have ih: "UnsubscribeMessage_Encode_loop ts b' tot' =
     (b' @ unsubscribePayload ts, tot' + length (unsubscribePayload ts), None)" for b' tot'
    by (rule Cons.IH) (use Cons.prems in simp)
  show ?case
    by (simp add: writeLPBytes_ok [OF lt] ih unsubscribePayload_def)
qed

lemma UnsubscribeMessage_size_sum:
  "UnsubscribeMessage_size m = 2 + sum_list (map (\<lambda>t. 2 + length t) (UnsubscribeMessage.topics m))"
  unfolding UnsubscribeMessage_size_def by (rule foldl_add_sum)

lemma length_unsubscribePayload:
  "length (unsubscribePayload ts) = sum_list (map (\<lambda>t. 2 + length t) ts)"
  by (induction ts) (simp_all add: unsubscribePayload_def)

lemma UnsubscribeMessage_Encode_result:
  assumes "fst (SetRemainingLength m (int32 (int (UnsubscribeMessage_size m)))) = m\<lparr>remlen := r\<rparr>"
    and "r \<le> maxRemainingLength" "Valid (mtype m)"
    and "\<forall>t \<in> set (UnsubscribeMessage.topics m). length t \<le> maxLPString"
  shows "UnsubscribeMessage_Encode m =
     (m\<lparr>remlen := r,
        buf := headerBytes (mtype m) (flags m) r @ uint16Bytes (UnsubscribeMessage.packetId m) @
               unsubscribePayload (UnsubscribeMessage.topics m)\<rparr>,
      1 + length (writeVarint32_loop r) + UnsubscribeMessage_size m, None)"
proof -
  let ?m1 = "m\<lparr>remlen := r\<rparr>"
  have he: "fixedHeader_Encode ?m1 =
     (?m1\<lparr>buf := headerBytes (mtype m) (flags m) r\<rparr>, 1 + length (writeVarint32_loop r), None)"
    using fixedHeader_Encode_ok [of ?m1] assms(2,3) by simp
  have sz: "UnsubscribeMessage_size m = 2 + length (unsubscribePayload (UnsubscribeMessage.topics m))"
    by (simp add: UnsubscribeMessage_size_sum length_unsubscribePayload)
  show ?thesis
    unfolding UnsubscribeMessage_Encode_def Let_def
      assms(1) [unfolded UnsubscribeMessage_size_def] he
    by (simp add: writeUint16_append UnsubscribeMessage_Encode_loop_ok [OF assms(4)] sz)
qed

lemma PublishMessage_Encode_result:
  assumes "topic m \<noteq> []" "payload m \<noteq> []"
    and "fst (SetRemainingLength m (int32 (int (PublishMessage_size m)))) = m\<lparr>remlen := r\<rparr>"
    and "r \<le> maxRemainingLength" "Valid (mtype m)"
    and "length (topic m) \<le> maxLPString"
  shows "PublishMessage_Encode m =
     (m\<lparr>remlen := r,
        buf := headerBytes (mtype m) (flags m) r @ lpBytes (topic m) @
               (if QoS m \<noteq> 0 then uint16Bytes (PublishMessage.packetId m) else []) @ payload m\<rparr>,
      1 + length (writeVarint32_loop r) + PublishMessage_size m, None)"
proof -
  let ?m1 = "m\<lparr>remlen := r\<rparr>"
  have he: "fixedHeader_Encode ?m1 =
     (?m1\<lparr>buf := headerBytes (mtype m) (flags m) r\<rparr>, 1 + length (writeVarint32_loop r), None)"
    using fixedHeader_Encode_ok [of ?m1] assms(4,5) by simp
  have q: "QoS (m\<lparr>remlen := r, buf := b\<rparr>) = QoS m" for b by (simp add: QoS_def)
  have step: "PublishMessage_Encode m =
      (case fixedHeader_Encode (fst (SetRemainingLength m (int32 (int (PublishMessage_size m))))) of
             (m2, n, Some e) \<Rightarrow> (m2, 0, Some e)
           | (m2, n, None) \<Rightarrow>
               (case writeLPBytes (buf m2) (topic m2) of
                  (b1, n1, Some e) \<Rightarrow> (m2\<lparr>buf := b1\<rparr>, n, Some e)
                | (b1, n1, None) \<Rightarrow>
                    let m3 = m2\<lparr>buf := b1\<rparr>;
                        m4 = (if QoS m3 \<noteq> 0
                              then m3\<lparr>buf := writeUint16 (buf m3) (PublishMessage.packetId m3)\<rparr>
                              else m3);
                        tot2 = (if QoS m3 \<noteq> 0 then n + n1 + 2 else n + n1)
                    in (m4\<lparr>buf := buf m4 @ payload m4\<rparr>, tot2 + length (payload m4), None)))"
    unfolding PublishMessage_Encode_def PublishMessage_size_def using assms(1,2)
    by (simp only: Let_def length_0_conv if_False)
  show ?thesis
    unfolding step assms(3) he
    by (cases "QoS m \<noteq> 0")
       (simp_all add: writeLPBytes_ok [OF assms(6)] writeUint16_append q PublishMessage_size_def
          Let_def)
qed

subsection \<open>The discarded error of SetRemainingLength\<close>

lemma int32_id: "0 \<le> n \<Longrightarrow> n < 2 ^ 31 \<Longrightarrow> int32 n = n"
  by (simp add: int32_def signed_take_bit_int_eq_self)

lemma int32_out_of_range_imp:
  assumes "int32 (int n) > maxRemainingLength \<or> int32 (int n) < 0"
  shows "int n > maxRemainingLength"
proof (rule ccontr)
  assume "\<not> int n > maxRemainingLength"
  then have "int n \<le> maxRemainingLength" by simp
  then have "int32 (int n) = int n" by (intro int32_id) (simp_all add: maxRemainingLength_def)
  then show False using assms \<open>int n \<le> maxRemainingLength\<close> by simp
qed

lemma fixedHeader_Encode_remlen:
  "fixedHeader_Encode h = (h', n, err) \<Longrightarrow>
     remlen h' = remlen h \<and> err \<noteq> Some ErrHeaderSetLength"
  by (auto simp add: fixedHeader_Encode_def resetBuf_def writeVarint32_def Let_def
      split: if_splits)

lemma SubscribeMessage_Encode_loop_error:
  "SubscribeMessage_Encode_loop ts qs b tot = (b', n, err) \<Longrightarrow> err \<noteq> Some ErrHeaderSetLength"
proof (induction ts arbitrary: qs b tot)
  case Nil
  then show ?case by auto
next
  case (Cons t ts)
  then show ?case
    by (auto simp add: writeLPBytes_def split: if_splits list.splits)
qed

lemma UnsubscribeMessage_Encode_loop_error:
  "UnsubscribeMessage_Encode_loop ts b tot = (b', n, err) \<Longrightarrow> err \<noteq> Some ErrHeaderSetLength"
proof (induction ts arbitrary: b tot)
  case Nil
  then show ?case by auto
next
  case (Cons t ts)
  then show ?case
    by (auto simp add: writeLPBytes_def split: if_splits)
qed

lemma SubscribeMessage_Encode_discards:
  assumes "int32 (int (SubscribeMessage_size m)) > maxRemainingLength \<or>
           int32 (int (SubscribeMessage_size m)) < 0"
    and "SubscribeMessage_Encode m = (m', n, err)"
  shows "remlen m' = remlen m \<and> err \<noteq> Some ErrHeaderSetLength"
proof -
  have s: "fst (SetRemainingLength m (int32 (int
      (foldl (\<lambda>tot t. tot + (2 + length t + 1)) 2 (SubscribeMessage.topics m))))) = m"
    using SetRemainingLength_out_of_range [OF assms(1), of m] by (simp add: SubscribeMessage_size_def)
  obtain m2 n2 e2 where he: "fixedHeader_Encode m = (m2, n2, e2)" by (metis prod_cases3)
  note r = fixedHeader_Encode_remlen [OF he]
  show ?thesis
  proof (cases e2)
    case (Some e)
    then show ?thesis using assms(2) r he
      unfolding SubscribeMessage_Encode_def Let_def s by auto
  next
    case None
    obtain b3 n3 e3 where lp: "SubscribeMessage_Encode_loop (SubscribeMessage.topics m2) (qos m2)
        (writeUint16 (buf m2) (SubscribeMessage.packetId m2)) (n2 + 2) = (b3, n3, e3)"
      by (metis prod_cases3)
    have "e3 \<noteq> Some ErrHeaderSetLength" using SubscribeMessage_Encode_loop_error [OF lp] .
    then show ?thesis using assms(2) r he None lp
      unfolding SubscribeMessage_Encode_def Let_def s by auto
  qed
qed

lemma UnsubscribeMessage_Encode_discards:
  assumes "int32 (int (UnsubscribeMessage_size m)) > maxRemainingLength \<or>
           int32 (int (UnsubscribeMessage_size m)) < 0"
    and "UnsubscribeMessage_Encode m = (m', n, err)"
  shows "remlen m' = remlen m \<and> err \<noteq> Some ErrHeaderSetLength"
proof -
  have s: "fst (SetRemainingLength m (int32 (int
      (foldl (\<lambda>tot t. tot + (2 + length t)) 2 (UnsubscribeMessage.topics m))))) = m"
    using SetRemainingLength_out_of_range [OF assms(1), of m] by (simp add: UnsubscribeMessage_size_def)
  obtain m2 n2 e2 where he: "fixedHeader_Encode m = (m2, n2, e2)" by (metis prod_cases3)
  note r = fixedHeader_Encode_remlen [OF he]
  show ?thesis
  proof (cases e2)
    case (Some e)
    then show ?thesis using assms(2) r he
      unfolding UnsubscribeMessage_Encode_def Let_def s by auto
  next
    case None
    obtain b3 n3 e3 where lp: "UnsubscribeMessage_Encode_loop (UnsubscribeMessage.topics m2)
        (writeUint16 (buf m2) (UnsubscribeMessage.packetId m2)) (n2 + 2) = (b3, n3, e3)"
      by (metis prod_cases3)
    have "e3 \<noteq> Some ErrHeaderSetLength" using UnsubscribeMessage_Encode_loop_error [OF lp] .
    then show ?thesis using assms(2) r he None lp
      unfolding UnsubscribeMessage_Encode_def Let_def s by auto
  qed
qed

lemma PublishMessage_Encode_step:
  assumes "topic m \<noteq> []" "payload m \<noteq> []"
  shows "PublishMessage_Encode m =
      (case fixedHeader_Encode (fst (SetRemainingLength m (int32 (int (PublishMessage_size m))))) of
             (m2, n, Some e) \<Rightarrow> (m2, 0, Some e)
           | (m2, n, None) \<Rightarrow>
               (case writeLPBytes (buf m2) (topic m2) of
                  (b1, n1, Some e) \<Rightarrow> (m2\<lparr>buf := b1\<rparr>, n, Some e)
                | (b1, n1, None) \<Rightarrow>
                    let m3 = m2\<lparr>buf := b1\<rparr>;
                        m4 = (if QoS m3 \<noteq> 0
                              then m3\<lparr>buf := writeUint16 (buf m3) (PublishMessage.packetId m3)\<rparr>
                              else m3);
                        tot2 = (if QoS m3 \<noteq> 0 then n + n1 + 2 else n + n1)
                    in (m4\<lparr>buf := buf m4 @ payload m4\<rparr>, tot2 + length (payload m4), None)))"
  unfolding PublishMessage_Encode_def PublishMessage_size_def using assms
  by (simp only: Let_def length_0_conv if_False)

lemma PublishMessage_Encode_discards:
  assumes "int32 (int (PublishMessage_size m)) > maxRemainingLength \<or>
           int32 (int (PublishMessage_size m)) < 0"
    and "PublishMessage_Encode m = (m', n, err)"
  shows "remlen m' = remlen m \<and> err \<noteq> Some ErrHeaderSetLength"
proof (cases "topic m = [] \<or> payload m = []")
  case True
  then show ?thesis using assms(2) by (auto simp add: PublishMessage_Encode_def split: if_splits)
next
  case False
  then have tp: "topic m \<noteq> []" "payload m \<noteq> []" by simp_all
  have s: "fst (SetRemainingLength m (int32 (int (PublishMessage_size m)))) = m"
    using SetRemainingLength_out_of_range [OF assms(1), of m] by simp
  obtain m2 n2 e2 where he: "fixedHeader_Encode m = (m2, n2, e2)" by (metis prod_cases3)
  note r = fixedHeader_Encode_remlen [OF he]
  show ?thesis
    using assms(2) r unfolding PublishMessage_Encode_step [OF tp] s he
    by (cases e2) (auto simp add: writeLPBytes_def Let_def split: if_splits)
qed

text \<open>
  A computed size that \<open>SetRemainingLength\<close> refuses: one above the maximum that the
  conversion to \<open>int32\<close> leaves as it is, or one that the conversion turns into a negative
  number or into one above the maximum.
\<close>

lemma oversize_int32:
  assumes "(maxRemainingLength < int n \<and> int n < 2 ^ 31) \<or>
           int32 (int n) < 0 \<or> maxRemainingLength < int32 (int n)"
  shows "int32 (int n) > maxRemainingLength \<or> int32 (int n) < 0"
  using assms int32_id [of "int n"] by auto

lemma oversize_remlen_differs:
  assumes "int32 (int n) > maxRemainingLength \<or> int32 (int n) < 0" "r \<le> maxRemainingLength"
  shows "r \<noteq> int n"
  using int32_out_of_range_imp [OF assms(1)] assms(2) by simp

lemma SubscribeMessage_Encode_oversize:
  assumes "int32 (int (SubscribeMessage_size m)) > maxRemainingLength \<or>
           int32 (int (SubscribeMessage_size m)) < 0"
    and "remlen m \<le> maxRemainingLength" "Valid (mtype m)"
    and "\<forall>t \<in> set (SubscribeMessage.topics m). length t \<le> maxLPString"
    and "length (qos m) = length (SubscribeMessage.topics m)"
  shows "SubscribeMessage_Encode m =
     (m\<lparr>buf := headerBytes (mtype m) (flags m) (remlen m) @
               uint16Bytes (SubscribeMessage.packetId m) @
               subscribePayload (zip (SubscribeMessage.topics m) (qos m))\<rparr>,
      1 + length (writeVarint32_loop (remlen m)) + SubscribeMessage_size m, None)"
proof -
  have s: "fst (SetRemainingLength m (int32 (int (SubscribeMessage_size m)))) = m\<lparr>remlen := remlen m\<rparr>"
    using SetRemainingLength_out_of_range [OF assms(1), of m] by simp
  show ?thesis
    using SubscribeMessage_Encode_result [OF s assms(2) assms(3) assms(4) assms(5)] by simp
qed

lemma UnsubscribeMessage_Encode_oversize:
  assumes "int32 (int (UnsubscribeMessage_size m)) > maxRemainingLength \<or>
           int32 (int (UnsubscribeMessage_size m)) < 0"
    and "remlen m \<le> maxRemainingLength" "Valid (mtype m)"
    and "\<forall>t \<in> set (UnsubscribeMessage.topics m). length t \<le> maxLPString"
  shows "UnsubscribeMessage_Encode m =
     (m\<lparr>buf := headerBytes (mtype m) (flags m) (remlen m) @
               uint16Bytes (UnsubscribeMessage.packetId m) @
               unsubscribePayload (UnsubscribeMessage.topics m)\<rparr>,
      1 + length (writeVarint32_loop (remlen m)) + UnsubscribeMessage_size m, None)"
proof -
  have s: "fst (SetRemainingLength m (int32 (int (UnsubscribeMessage_size m)))) = m\<lparr>remlen := remlen m\<rparr>"
    using SetRemainingLength_out_of_range [OF assms(1), of m] by simp
  show ?thesis
    using UnsubscribeMessage_Encode_result [OF s assms(2) assms(3) assms(4)] by simp
qed

lemma PublishMessage_Encode_oversize:
  assumes "int32 (int (PublishMessage_size m)) > maxRemainingLength \<or>
           int32 (int (PublishMessage_size m)) < 0"
    and "remlen m \<le> maxRemainingLength" "Valid (mtype m)"
    and "topic m \<noteq> []" "payload m \<noteq> []" "length (topic m) \<le> maxLPString"
  shows "PublishMessage_Encode m =
     (m\<lparr>buf := headerBytes (mtype m) (flags m) (remlen m) @ lpBytes (topic m) @
               (if QoS m \<noteq> 0 then uint16Bytes (PublishMessage.packetId m) else []) @ payload m\<rparr>,
      1 + length (writeVarint32_loop (remlen m)) + PublishMessage_size m, None)"
proof -
  have s: "fst (SetRemainingLength m (int32 (int (PublishMessage_size m)))) = m\<lparr>remlen := remlen m\<rparr>"
    using SetRemainingLength_out_of_range [OF assms(1), of m] by simp
  show ?thesis
    using PublishMessage_Encode_result [OF assms(4) assms(5) s assms(2) assms(3) assms(6)] by simp
qed

text \<open>The remaining length that a decoder reads back from the header bytes.\<close>

lemma readVarint32_headerBytes:
  assumes "0 \<le> r" "r \<le> maxRemainingLength"
  shows "readVarint32 None (tl (headerBytes t fl r @ rest)) =
           (r, length (writeVarint32_loop r), None, None, rest)"
  using readVarint32_writeVarint32_loop [OF assms, of None rest] by (simp add: headerBytes_def)

subsection \<open>Messages built by repeated AddTopic\<close>

lemma findTopic_None: "findTopic xs t i = None \<longleftrightarrow> t \<notin> set xs"
  by (induction xs arbitrary: i) auto

lemma SubscribeMessage_AddTopic_new:
  assumes "ValidQos q" "t \<notin> set (SubscribeMessage.topics m)"
  shows "SubscribeMessage_AddTopic m t q =
     (m\<lparr>SubscribeMessage.topics := SubscribeMessage.topics m @ [t], qos := qos m @ [q]\<rparr>, None)"
  using assms by (simp add: SubscribeMessage_AddTopic_def findTopic_None [THEN iffD2])

lemma SubscribeMessage_AddTopic_fold:
  assumes "distinct ts" "set ts \<inter> set (SubscribeMessage.topics m) = {}"
    and "length qs = length ts" "\<forall>q \<in> set qs. ValidQos q"
  shows "foldl (\<lambda>m (t, q). fst (SubscribeMessage_AddTopic m t q)) m (zip ts qs) =
     m\<lparr>SubscribeMessage.topics := SubscribeMessage.topics m @ ts, qos := qos m @ qs\<rparr>"
  using assms
proof (induction ts arbitrary: qs m)
  case Nil
  then show ?case by simp
next
  case (Cons t ts)
  then obtain q qs' where qs: "qs = q # qs'" by (cases qs) auto
  let ?m1 = "m\<lparr>SubscribeMessage.topics := SubscribeMessage.topics m @ [t], qos := qos m @ [q]\<rparr>"
  have a: "SubscribeMessage_AddTopic m t q = (?m1, None)"
    using Cons.prems qs by (intro SubscribeMessage_AddTopic_new) auto
  have "foldl (\<lambda>m (t, q). fst (SubscribeMessage_AddTopic m t q)) ?m1 (zip ts qs') =
     ?m1\<lparr>SubscribeMessage.topics := SubscribeMessage.topics ?m1 @ ts, qos := qos ?m1 @ qs'\<rparr>"
    using Cons.prems qs by (intro Cons.IH) auto
  then show ?case by (simp add: qs a)
qed

text \<open>
  Pairwise different topics of one length \<open>n\<close>: \<open>i\<close> bytes \<open>a\<close> followed by \<open>n - i\<close> bytes
  \<open>b\<close>.
\<close>

lemma distinct_two_letter_topics:
  assumes "a \<noteq> b" "k \<le> Suc n"
  shows "distinct (map (\<lambda>i. replicate i a @ replicate (n - i) b) [0..<k])"
proof -
  have "inj_on (\<lambda>i. replicate i a @ replicate (n - i) b) (set [0..<k])"
  proof (rule inj_onI)
    fix i j
    assume "replicate i a @ replicate (n - i) b = replicate j a @ replicate (n - j) b"
    then have "length (filter (\<lambda>x. x = a) (replicate i a @ replicate (n - i) b)) =
               length (filter (\<lambda>x. x = a) (replicate j a @ replicate (n - j) b))"
      by simp
    then show "i = j" using assms(1) by simp
  qed
  then show ?thesis by (simp add: distinct_map)
qed

lemma sum_list_map_const:
  "\<forall>t \<in> set ts. f t = (c :: nat) \<Longrightarrow> sum_list (map f ts) = length ts * c"
  by (induction ts) auto

lemma SubscribeMessage_size_equal_lengths:
  assumes "\<forall>t \<in> set (SubscribeMessage.topics m). length t = k"
  shows "SubscribeMessage_size m = 2 + length (SubscribeMessage.topics m) * (k + 3)"
  unfolding SubscribeMessage_size_sum
  using sum_list_map_const [of "SubscribeMessage.topics m" "\<lambda>t. 2 + length t + 1" "k + 3"] assms
  by simp

lemma UnsubscribeMessage_size_equal_lengths:
  assumes "\<forall>t \<in> set (UnsubscribeMessage.topics m). length t = k"
  shows "UnsubscribeMessage_size m = 2 + length (UnsubscribeMessage.topics m) * (k + 2)"
  unfolding UnsubscribeMessage_size_sum
  using sum_list_map_const [of "UnsubscribeMessage.topics m" "\<lambda>t. 2 + length t" "k + 2"] assms
  by simp

subsection \<open>Fresh messages\<close>

lemma NewSubscribeMessage_fields:
  "NewSubscribeMessage = \<lparr>buf = [], remlen = 0, mtype = SUBSCRIBE, flags = 2,
      SubscribeMessage.packetId = 0, SubscribeMessage.topics = [], qos = []\<rparr>"
  by (simp add: NewSubscribeMessage_def SetType_def DefaultFlags_def MessageType_defs)

lemma NewUnsubscribeMessage_fields:
  "NewUnsubscribeMessage = \<lparr>buf = [], remlen = 0, mtype = UNSUBSCRIBE, flags = 2,
      UnsubscribeMessage.packetId = 0, UnsubscribeMessage.topics = []\<rparr>"
  by (simp add: NewUnsubscribeMessage_def SetType_def DefaultFlags_def MessageType_defs)

lemma NewPublishMessage_fields:
  "NewPublishMessage = \<lparr>buf = [], remlen = 0, mtype = PUBLISH, flags = 0,
      PublishMessage.packetId = 0, topic = [], payload = []\<rparr>"
  by (simp add: NewPublishMessage_def SetType_def DefaultFlags_def MessageType_defs)

lemma Valid_SUBSCRIBE: "Valid SUBSCRIBE"
  by (simp add: Valid_def MessageType_defs)

lemma Valid_UNSUBSCRIBE: "Valid UNSUBSCRIBE"
  by (simp add: Valid_def MessageType_defs)

lemma Valid_PUBLISH: "Valid PUBLISH"
  by (simp add: Valid_def MessageType_defs)

text \<open>
  Claim C10 as stated fails where the conversion \<open>int32(total)\<close> wraps a computed size
  above the maximum into the legal range. A Subscribe message built by 65535 calls of
  \<open>AddTopic\<close> with pairwise different topics of 65535 bytes has the computed body size
  4,295,032,832 = 2^32 + 65536; \<open>SetRemainingLength\<close> is called with 65536, accepts it
  and overwrites the remaining length 0 of the fresh message. A Publish message with the
  topic \<open>a\<close> and a payload of 2^32 + 5 bytes has the computed body size 2^32 + 8 and gets
  the remaining length 8. In both cases the header does not keep its previous remaining
  length.
\<close>

theorem C10_counterexample:
  "(let ts = map (\<lambda>i. replicate i 0x61 @ replicate (65535 - i) 0x62) [0..<65535];
        s = foldl (\<lambda>m (t, q). fst (SubscribeMessage_AddTopic m t q)) NewSubscribeMessage
              (zip ts (replicate 65535 0));
        p = (fst (SetTopic NewPublishMessage [0x61]))\<lparr>payload := replicate 4294967301 0\<rparr>
    in SubscribeMessage_size s = 4295032832 \<and> maxRemainingLength < int (SubscribeMessage_size s)
       \<and> remlen s = 0
       \<and> (case SubscribeMessage_Encode s of
             (s', n, err) \<Rightarrow>
               err = None \<and> remlen s' = 65536 \<and> take 4 (buf s') = [0x82, 0x80, 0x80, 0x04])
       \<and> PublishMessage_size p = 4294967304 \<and> maxRemainingLength < int (PublishMessage_size p)
       \<and> remlen p = 0
       \<and> (case PublishMessage_Encode p of
             (p', n, err) \<Rightarrow>
               err = None \<and> remlen p' = 8 \<and> take 5 (buf p') = [0x30, 0x08, 0x00, 0x01, 0x61]))"
proof -
  define ts :: "byte list list"
    where "ts = map (\<lambda>i. replicate i 0x61 @ replicate (65535 - i) 0x62) [0..<65535]"
  define s where "s = NewSubscribeMessage\<lparr>SubscribeMessage.topics := ts, qos := replicate 65535 0\<rparr>"
  define p where "p = (fst (SetTopic NewPublishMessage [0x61]))\<lparr>payload := replicate 4294967301 0\<rparr>"
  have len: "\<forall>t \<in> set ts. length t = 65535" by (simp add: ts_def)
  have lts: "length ts = 65535" by (simp add: ts_def)
  have dist: "distinct ts"
    unfolding ts_def by (rule distinct_two_letter_topics) simp_all
  have fold: "foldl (\<lambda>m (t, q). fst (SubscribeMessage_AddTopic m t q)) NewSubscribeMessage
              (zip ts (replicate 65535 0)) = s"
    using SubscribeMessage_AddTopic_fold [of ts NewSubscribeMessage "replicate 65535 0"] dist lts
    by (simp add: s_def NewSubscribeMessage_fields ValidQos_def QosAtMostOnce_def)
  have topics_s: "SubscribeMessage.topics s = ts" and qos_s: "qos s = replicate 65535 0"
    and hdr_s: "remlen s = 0" "mtype s = SUBSCRIBE" "flags s = 2"
    by (simp_all add: s_def NewSubscribeMessage_fields)
  have size_s: "SubscribeMessage_size s = 4295032832"
    using SubscribeMessage_size_equal_lengths [of s 65535] len lts by (simp add: topics_s)
  have i32: "int32 (int (SubscribeMessage_size s)) = 65536"
    by (simp add: size_s int32_def signed_take_bit_eq_take_bit_shift)
  have set_s: "fst (SetRemainingLength s (int32 (int (SubscribeMessage_size s)))) = s\<lparr>remlen := 65536\<rparr>"
    unfolding i32 by (simp add: SetRemainingLength_in_range maxRemainingLength_def)
  have enc_s: "SubscribeMessage_Encode s =
     (s\<lparr>remlen := 65536,
        buf := headerBytes (mtype s) (flags s) 65536 @ uint16Bytes (SubscribeMessage.packetId s) @
               subscribePayload (zip (SubscribeMessage.topics s) (qos s))\<rparr>,
      1 + length (writeVarint32_loop 65536) + SubscribeMessage_size s, None)"
  proof (rule SubscribeMessage_Encode_result [OF set_s])
    show "65536 \<le> maxRemainingLength" by (simp add: maxRemainingLength_def)
    show "Valid (mtype s)" by (simp add: hdr_s Valid_SUBSCRIBE)
    show "\<forall>t \<in> set (SubscribeMessage.topics s). length t \<le> maxLPString"
      using len by (simp add: topics_s maxLPString_def)
    show "length (qos s) = length (SubscribeMessage.topics s)"
      by (simp add: topics_s qos_s lts)
  qed
  have hb_s: "headerBytes SUBSCRIBE 2 65536 = [0x82, 0x80, 0x80, 0x04]"
    by (simp add: headerBytes_def writeVarint32_loop.simps MessageType_defs)
  have sub: "SubscribeMessage_size s = 4295032832 \<and> maxRemainingLength < int (SubscribeMessage_size s)
       \<and> remlen s = 0
       \<and> (case SubscribeMessage_Encode s of
             (s', n, err) \<Rightarrow>
               err = None \<and> remlen s' = 65536 \<and> take 4 (buf s') = [0x82, 0x80, 0x80, 0x04])"
    unfolding enc_s by (simp add: size_s hdr_s hb_s maxRemainingLength_def)
  have p_fields: "topic p = [0x61]" "payload p = replicate 4294967301 0" "remlen p = 0"
      "mtype p = PUBLISH" "flags p = 0" "QoS p = 0"
    by (simp_all add: p_def SetTopic_def ValidTopic_def NewPublishMessage_fields QoS_def)
  have size_p: "PublishMessage_size p = 4294967304"
    by (simp add: PublishMessage_size_def p_fields)
  have i32p: "int32 (int (PublishMessage_size p)) = 8"
    by (simp add: size_p int32_def signed_take_bit_eq_take_bit_shift)
  have set_p: "fst (SetRemainingLength p (int32 (int (PublishMessage_size p)))) = p\<lparr>remlen := 8\<rparr>"
    unfolding i32p by (simp add: SetRemainingLength_in_range maxRemainingLength_def)
  have enc_p: "PublishMessage_Encode p =
     (p\<lparr>remlen := 8,
        buf := headerBytes (mtype p) (flags p) 8 @ lpBytes (topic p) @
               (if QoS p \<noteq> 0 then uint16Bytes (PublishMessage.packetId p) else []) @ payload p\<rparr>,
      1 + length (writeVarint32_loop 8) + PublishMessage_size p, None)"
  proof (rule PublishMessage_Encode_result [OF _ _ set_p])
    show "topic p \<noteq> []" "payload p \<noteq> []" by (simp_all add: p_fields)
    show "8 \<le> maxRemainingLength" by (simp add: maxRemainingLength_def)
    show "Valid (mtype p)" by (simp add: p_fields Valid_PUBLISH)
    show "length (topic p) \<le> maxLPString" by (simp add: p_fields maxLPString_def)
  qed
  have hb_p: "headerBytes PUBLISH 0 8 = [0x30, 0x08]" "lpBytes [0x61] = [0x00, 0x01, 0x61]"
    by (simp_all add: headerBytes_def writeVarint32_loop.simps MessageType_defs lpBytes_def
        writeUint16_def)
  have pub: "PublishMessage_size p = 4294967304 \<and> maxRemainingLength < int (PublishMessage_size p)
       \<and> remlen p = 0
       \<and> (case PublishMessage_Encode p of
             (p', n, err) \<Rightarrow>
               err = None \<and> remlen p' = 8 \<and> take 5 (buf p') = [0x30, 0x08, 0x00, 0x01, 0x61])"
    unfolding enc_p by (simp add: size_p p_fields hb_p maxRemainingLength_def)
  show ?thesis
    unfolding Let_def fold ts_def [symmetric] p_def [symmetric] using sub pub by simp
qed

text \<open>
  Claim C10, amended. Take a Subscribe, Unsubscribe or Publish message whose computed body
  size is one that \<open>SetRemainingLength\<close> refuses after the conversion to \<open>int32\<close>:
  every size from 268,435,456 to 2,147,483,647, and every larger one that the conversion
  turns into a negative number or into a number above 268,435,455. Then
  \<open>SetRemainingLength\<close> returns its out-of-range error and leaves the header as it is,
  and \<open>Encode\<close> drops that error: whatever \<open>Encode\<close> returns, the header holds the
  previous remaining length and the error is not the out-of-range one. When nothing else
  stops the encoder (the previous remaining length is within 0 and the maximum, the message
  type is valid, no topic is longer than 65535 bytes, there is one QoS byte per topic; for
  Publish the topic and the payload are not empty), \<open>Encode\<close> returns no error, its
  bytes are the header with the previous remaining length followed by the whole body, whose
  length is the computed size, a decoder reads the previous remaining length back from the
  header, and that remaining length is not the number of body bytes.
\<close>

theorem C10_oversize_error_discarded:
  fixes s :: SubscribeMessage and u :: UnsubscribeMessage and p :: PublishMessage
  shows
  "((maxRemainingLength < int (SubscribeMessage_size s) \<and> int (SubscribeMessage_size s) < 2 ^ 31) \<or>
    int32 (int (SubscribeMessage_size s)) < 0 \<or>
    maxRemainingLength < int32 (int (SubscribeMessage_size s)) \<longrightarrow>
      SetRemainingLength s (int32 (int (SubscribeMessage_size s))) = (s, Some ErrHeaderSetLength) \<and>
      remlen (fst (SubscribeMessage_Encode s)) = remlen s \<and>
      snd (snd (SubscribeMessage_Encode s)) \<noteq> Some ErrHeaderSetLength \<and>
      (0 \<le> remlen s \<and> remlen s \<le> maxRemainingLength \<and> Valid (mtype s) \<and>
       (\<forall>t \<in> set (SubscribeMessage.topics s). length t \<le> maxLPString) \<and>
       length (qos s) = length (SubscribeMessage.topics s) \<longrightarrow>
         SubscribeMessage_Encode s =
           (s\<lparr>buf := headerBytes (mtype s) (flags s) (remlen s) @
                     uint16Bytes (SubscribeMessage.packetId s) @
                     subscribePayload (zip (SubscribeMessage.topics s) (qos s))\<rparr>,
            1 + length (writeVarint32_loop (remlen s)) + SubscribeMessage_size s, None) \<and>
         length (uint16Bytes (SubscribeMessage.packetId s) @
                 subscribePayload (zip (SubscribeMessage.topics s) (qos s))) =
           SubscribeMessage_size s \<and>
         readVarint32 None (tl (headerBytes (mtype s) (flags s) (remlen s) @
                 uint16Bytes (SubscribeMessage.packetId s) @
                 subscribePayload (zip (SubscribeMessage.topics s) (qos s)))) =
           (remlen s, length (writeVarint32_loop (remlen s)), None, None,
            uint16Bytes (SubscribeMessage.packetId s) @
            subscribePayload (zip (SubscribeMessage.topics s) (qos s))) \<and>
         remlen s \<noteq> int (SubscribeMessage_size s)))
   \<and>
   ((maxRemainingLength < int (UnsubscribeMessage_size u) \<and> int (UnsubscribeMessage_size u) < 2 ^ 31) \<or>
    int32 (int (UnsubscribeMessage_size u)) < 0 \<or>
    maxRemainingLength < int32 (int (UnsubscribeMessage_size u)) \<longrightarrow>
      SetRemainingLength u (int32 (int (UnsubscribeMessage_size u))) = (u, Some ErrHeaderSetLength) \<and>
      remlen (fst (UnsubscribeMessage_Encode u)) = remlen u \<and>
      snd (snd (UnsubscribeMessage_Encode u)) \<noteq> Some ErrHeaderSetLength \<and>
      (0 \<le> remlen u \<and> remlen u \<le> maxRemainingLength \<and> Valid (mtype u) \<and>
       (\<forall>t \<in> set (UnsubscribeMessage.topics u). length t \<le> maxLPString) \<longrightarrow>
         UnsubscribeMessage_Encode u =
           (u\<lparr>buf := headerBytes (mtype u) (flags u) (remlen u) @
                     uint16Bytes (UnsubscribeMessage.packetId u) @
                     unsubscribePayload (UnsubscribeMessage.topics u)\<rparr>,
            1 + length (writeVarint32_loop (remlen u)) + UnsubscribeMessage_size u, None) \<and>
         length (uint16Bytes (UnsubscribeMessage.packetId u) @
                 unsubscribePayload (UnsubscribeMessage.topics u)) =
           UnsubscribeMessage_size u \<and>
         readVarint32 None (tl (headerBytes (mtype u) (flags u) (remlen u) @
                 uint16Bytes (UnsubscribeMessage.packetId u) @
                 unsubscribePayload (UnsubscribeMessage.topics u))) =
           (remlen u, length (writeVarint32_loop (remlen u)), None, None,
            uint16Bytes (UnsubscribeMessage.packetId u) @
            unsubscribePayload (UnsubscribeMessage.topics u)) \<and>
         remlen u \<noteq> int (UnsubscribeMessage_size u)))
   \<and>
   ((maxRemainingLength < int (PublishMessage_size p) \<and> int (PublishMessage_size p) < 2 ^ 31) \<or>
    int32 (int (PublishMessage_size p)) < 0 \<or>
    maxRemainingLength < int32 (int (PublishMessage_size p)) \<longrightarrow>
      SetRemainingLength p (int32 (int (PublishMessage_size p))) = (p, Some ErrHeaderSetLength) \<and>
      remlen (fst (PublishMessage_Encode p)) = remlen p \<and>
      snd (snd (PublishMessage_Encode p)) \<noteq> Some ErrHeaderSetLength \<and>
      (0 \<le> remlen p \<and> remlen p \<le> maxRemainingLength \<and> Valid (mtype p) \<and>
       topic p \<noteq> [] \<and> length (topic p) \<le> maxLPString \<and> payload p \<noteq> [] \<longrightarrow>
         PublishMessage_Encode p =
           (p\<lparr>buf := headerBytes (mtype p) (flags p) (remlen p) @ lpBytes (topic p) @
                     (if QoS p \<noteq> 0 then uint16Bytes (PublishMessage.packetId p) else []) @
                     payload p\<rparr>,
            1 + length (writeVarint32_loop (remlen p)) + PublishMessage_size p, None) \<and>
         length (lpBytes (topic p) @
                 (if QoS p \<noteq> 0 then uint16Bytes (PublishMessage.packetId p) else []) @
                 payload p) = PublishMessage_size p \<and>
         readVarint32 None (tl (headerBytes (mtype p) (flags p) (remlen p) @ lpBytes (topic p) @
                 (if QoS p \<noteq> 0 then uint16Bytes (PublishMessage.packetId p) else []) @
                 payload p)) =
           (remlen p, length (writeVarint32_loop (remlen p)), None, None,
            lpBytes (topic p) @
            (if QoS p \<noteq> 0 then uint16Bytes (PublishMessage.packetId p) else []) @ payload p) \<and>
         remlen p \<noteq> int (PublishMessage_size p)))"
proof (intro conjI impI)
  assume h: "(maxRemainingLength < int (SubscribeMessage_size s) \<and> int (SubscribeMessage_size s) < 2 ^ 31) \<or>
    int32 (int (SubscribeMessage_size s)) < 0 \<or>
    maxRemainingLength < int32 (int (SubscribeMessage_size s))"
  note o = oversize_int32 [OF h]
  show "SetRemainingLength s (int32 (int (SubscribeMessage_size s))) = (s, Some ErrHeaderSetLength)"
    using o by (rule SetRemainingLength_out_of_range)
  obtain s' n err where e: "SubscribeMessage_Encode s = (s', n, err)" by (metis prod_cases3)
  show "remlen (fst (SubscribeMessage_Encode s)) = remlen s"
    using SubscribeMessage_Encode_discards [OF o e] by (simp add: e)
  show "snd (snd (SubscribeMessage_Encode s)) \<noteq> Some ErrHeaderSetLength"
    using SubscribeMessage_Encode_discards [OF o e] by (simp add: e)
  assume w: "0 \<le> remlen s \<and> remlen s \<le> maxRemainingLength \<and> Valid (mtype s) \<and>
       (\<forall>t \<in> set (SubscribeMessage.topics s). length t \<le> maxLPString) \<and>
       length (qos s) = length (SubscribeMessage.topics s)"
  show "SubscribeMessage_Encode s =
           (s\<lparr>buf := headerBytes (mtype s) (flags s) (remlen s) @
                     uint16Bytes (SubscribeMessage.packetId s) @
                     subscribePayload (zip (SubscribeMessage.topics s) (qos s))\<rparr>,
            1 + length (writeVarint32_loop (remlen s)) + SubscribeMessage_size s, None)"
    using w by (intro SubscribeMessage_Encode_oversize [OF o]) simp_all
  show "length (uint16Bytes (SubscribeMessage.packetId s) @
                 subscribePayload (zip (SubscribeMessage.topics s) (qos s))) =
           SubscribeMessage_size s"
    using w by (simp add: SubscribeMessage_size_sum length_subscribePayload)
  show "readVarint32 None (tl (headerBytes (mtype s) (flags s) (remlen s) @
                 uint16Bytes (SubscribeMessage.packetId s) @
                 subscribePayload (zip (SubscribeMessage.topics s) (qos s)))) =
           (remlen s, length (writeVarint32_loop (remlen s)), None, None,
            uint16Bytes (SubscribeMessage.packetId s) @
            subscribePayload (zip (SubscribeMessage.topics s) (qos s)))"
    using w by (intro readVarint32_headerBytes) simp_all
  show "remlen s \<noteq> int (SubscribeMessage_size s)"
    using w by (intro oversize_remlen_differs [OF o]) simp
next
  assume h: "(maxRemainingLength < int (UnsubscribeMessage_size u) \<and> int (UnsubscribeMessage_size u) < 2 ^ 31) \<or>
    int32 (int (UnsubscribeMessage_size u)) < 0 \<or>
    maxRemainingLength < int32 (int (UnsubscribeMessage_size u))"
  note o = oversize_int32 [OF h]
  show "SetRemainingLength u (int32 (int (UnsubscribeMessage_size u))) = (u, Some ErrHeaderSetLength)"
    using o by (rule SetRemainingLength_out_of_range)
  obtain u' n err where e: "UnsubscribeMessage_Encode u = (u', n, err)" by (metis prod_cases3)
  show "remlen (fst (UnsubscribeMessage_Encode u)) = remlen u"
    using UnsubscribeMessage_Encode_discards [OF o e] by (simp add: e)
  show "snd (snd (UnsubscribeMessage_Encode u)) \<noteq> Some ErrHeaderSetLength"
    using UnsubscribeMessage_Encode_discards [OF o e] by (simp add: e)
  assume w: "0 \<le> remlen u \<and> remlen u \<le> maxRemainingLength \<and> Valid (mtype u) \<and>
       (\<forall>t \<in> set (UnsubscribeMessage.topics u). length t \<le> maxLPString)"
  show "UnsubscribeMessage_Encode u =
           (u\<lparr>buf := headerBytes (mtype u) (flags u) (remlen u) @
                     uint16Bytes (UnsubscribeMessage.packetId u) @
                     unsubscribePayload (UnsubscribeMessage.topics u)\<rparr>,
            1 + length (writeVarint32_loop (remlen u)) + UnsubscribeMessage_size u, None)"
    using w by (intro UnsubscribeMessage_Encode_oversize [OF o]) simp_all
  show "length (uint16Bytes (UnsubscribeMessage.packetId u) @
                 unsubscribePayload (UnsubscribeMessage.topics u)) =
           UnsubscribeMessage_size u"
    by (simp add: UnsubscribeMessage_size_sum length_unsubscribePayload)
  show "readVarint32 None (tl (headerBytes (mtype u) (flags u) (remlen u) @
                 uint16Bytes (UnsubscribeMessage.packetId u) @
                 unsubscribePayload (UnsubscribeMessage.topics u))) =
           (remlen u, length (writeVarint32_loop (remlen u)), None, None,
            uint16Bytes (UnsubscribeMessage.packetId u) @
            unsubscribePayload (UnsubscribeMessage.topics u))"
    using w by (intro readVarint32_headerBytes) simp_all
  show "remlen u \<noteq> int (UnsubscribeMessage_size u)"
    using w by (intro oversize_remlen_differs [OF o]) simp
next
  assume h: "(maxRemainingLength < int (PublishMessage_size p) \<and> int (PublishMessage_size p) < 2 ^ 31) \<or>
    int32 (int (PublishMessage_size p)) < 0 \<or>
    maxRemainingLength < int32 (int (PublishMessage_size p))"
  note o = oversize_int32 [OF h]
  show "SetRemainingLength p (int32 (int (PublishMessage_size p))) = (p, Some ErrHeaderSetLength)"
    using o by (rule SetRemainingLength_out_of_range)
  obtain p' n err where e: "PublishMessage_Encode p = (p', n, err)" by (metis prod_cases3)
  show "remlen (fst (PublishMessage_Encode p)) = remlen p"
    using PublishMessage_Encode_discards [OF o e] by (simp add: e)
  show "snd (snd (PublishMessage_Encode p)) \<noteq> Some ErrHeaderSetLength"
    using PublishMessage_Encode_discards [OF o e] by (simp add: e)
  assume w: "0 \<le> remlen p \<and> remlen p \<le> maxRemainingLength \<and> Valid (mtype p) \<and>
       topic p \<noteq> [] \<and> length (topic p) \<le> maxLPString \<and> payload p \<noteq> []"
  show "PublishMessage_Encode p =
           (p\<lparr>buf := headerBytes (mtype p) (flags p) (remlen p) @ lpBytes (topic p) @
                     (if QoS p \<noteq> 0 then uint16Bytes (PublishMessage.packetId p) else []) @
                     payload p\<rparr>,
            1 + length (writeVarint32_loop (remlen p)) + PublishMessage_size p, None)"
    using w by (intro PublishMessage_Encode_oversize [OF o]) simp_all
  show "length (lpBytes (topic p) @
                 (if QoS p \<noteq> 0 then uint16Bytes (PublishMessage.packetId p) else []) @
                 payload p) = PublishMessage_size p"
    by (simp add: PublishMessage_size_def)
  show "readVarint32 None (tl (headerBytes (mtype p) (flags p) (remlen p) @ lpBytes (topic p) @
                 (if QoS p \<noteq> 0 then uint16Bytes (PublishMessage.packetId p) else []) @
                 payload p)) =
           (remlen p, length (writeVarint32_loop (remlen p)), None, None,
            lpBytes (topic p) @
            (if QoS p \<noteq> 0 then uint16Bytes (PublishMessage.packetId p) else []) @ payload p)"
    using w by (intro readVarint32_headerBytes) simp_all
  show "remlen p \<noteq> int (PublishMessage_size p)"
    using w by (intro oversize_remlen_differs [OF o]) simp
qed


theorem C10_oversize_error_discarded_witness:
  "(let ts = map (\<lambda>i. replicate i 0x61 @ replicate (65535 - i) 0x62) [0..<4097];
        s = foldl (\<lambda>m (t, q). fst (SubscribeMessage_AddTopic m t q)) NewSubscribeMessage
              (zip ts (replicate 4097 1));
        u = NewUnsubscribeMessage\<lparr>UnsubscribeMessage.topics := ts\<rparr>;
        p = (fst (SetTopic NewPublishMessage [0x61]))\<lparr>payload := replicate 268435456 0\<rparr>
    in SubscribeMessage_size s = 268509188
       \<and> SetRemainingLength s (int32 (int (SubscribeMessage_size s))) = (s, Some ErrHeaderSetLength)
       \<and> SubscribeMessage_Encode s =
           (s\<lparr>buf := [0x82, 0x00] @ uint16Bytes 0 @ subscribePayload (zip ts (replicate 4097 1))\<rparr>,
            268509190, None)
       \<and> remlen (fst (SubscribeMessage_Encode s)) = 0
       \<and> UnsubscribeMessage_size u = 268505091
       \<and> SetRemainingLength u (int32 (int (UnsubscribeMessage_size u))) = (u, Some ErrHeaderSetLength)
       \<and> UnsubscribeMessage_Encode u =
           (u\<lparr>buf := [0xA2, 0x00] @ uint16Bytes 0 @ unsubscribePayload ts\<rparr>, 268505093, None)
       \<and> remlen (fst (UnsubscribeMessage_Encode u)) = 0
       \<and> PublishMessage_size p = 268435459
       \<and> SetRemainingLength p (int32 (int (PublishMessage_size p))) = (p, Some ErrHeaderSetLength)
       \<and> PublishMessage_Encode p =
           (p\<lparr>buf := [0x30, 0x00, 0x00, 0x01, 0x61] @ replicate 268435456 0\<rparr>, 268435461, None)
       \<and> remlen (fst (PublishMessage_Encode p)) = 0)"
proof -
  define ts :: "byte list list"
    where "ts = map (\<lambda>i. replicate i 0x61 @ replicate (65535 - i) 0x62) [0..<4097]"
  define s where "s = NewSubscribeMessage\<lparr>SubscribeMessage.topics := ts, qos := replicate 4097 1\<rparr>"
  define u where "u = NewUnsubscribeMessage\<lparr>UnsubscribeMessage.topics := ts\<rparr>"
  define p where "p = (fst (SetTopic NewPublishMessage [0x61]))\<lparr>payload := replicate 268435456 0\<rparr>"
  have len: "\<forall>t \<in> set ts. length t = 65535" by (simp add: ts_def)
  have lts: "length ts = 4097" by (simp add: ts_def)
  have dist: "distinct ts"
    unfolding ts_def by (rule distinct_two_letter_topics) simp_all
  have fold: "foldl (\<lambda>m (t, q). fst (SubscribeMessage_AddTopic m t q)) NewSubscribeMessage
              (zip ts (replicate 4097 1)) = s"
    using SubscribeMessage_AddTopic_fold [of ts NewSubscribeMessage "replicate 4097 1"] dist lts
    by (simp add: s_def NewSubscribeMessage_fields ValidQos_def QosAtLeastOnce_def)
  have s_fields: "SubscribeMessage.topics s = ts" "qos s = replicate 4097 1"
      "remlen s = 0" "mtype s = SUBSCRIBE" "flags s = 2" "SubscribeMessage.packetId s = 0"
    by (simp_all add: s_def NewSubscribeMessage_fields)
  have u_fields: "UnsubscribeMessage.topics u = ts"
      "remlen u = 0" "mtype u = UNSUBSCRIBE" "flags u = 2" "UnsubscribeMessage.packetId u = 0"
    by (simp_all add: u_def NewUnsubscribeMessage_fields)
  have p_fields: "topic p = [0x61]" "payload p = replicate 268435456 0" "remlen p = 0"
      "mtype p = PUBLISH" "flags p = 0" "QoS p = 0"
    by (simp_all add: p_def SetTopic_def ValidTopic_def NewPublishMessage_fields QoS_def)
  have size_s: "SubscribeMessage_size s = 268509188"
    using SubscribeMessage_size_equal_lengths [of s 65535] len lts by (simp add: s_fields)
  have size_u: "UnsubscribeMessage_size u = 268505091"
    using UnsubscribeMessage_size_equal_lengths [of u 65535] len lts by (simp add: u_fields)
  have size_p: "PublishMessage_size p = 268435459"
    by (simp add: PublishMessage_size_def p_fields)
  have hb: "headerBytes SUBSCRIBE 2 0 = [0x82, 0x00]" "headerBytes UNSUBSCRIBE 2 0 = [0xA2, 0x00]"
      "headerBytes PUBLISH 0 0 = [0x30, 0x00]" "lpBytes [0x61] = [0x00, 0x01, 0x61]"
    by (simp_all add: headerBytes_def writeVarint32_loop.simps MessageType_defs lpBytes_def
        writeUint16_def)
  have vl: "length (writeVarint32_loop 0) = 1" by (simp add: writeVarint32_loop.simps)
  have ws: "0 \<le> remlen s \<and> remlen s \<le> maxRemainingLength \<and> Valid (mtype s) \<and>
       (\<forall>t \<in> set (SubscribeMessage.topics s). length t \<le> maxLPString) \<and>
       length (qos s) = length (SubscribeMessage.topics s)"
    using len by (simp add: s_fields lts Valid_SUBSCRIBE maxRemainingLength_def maxLPString_def)
  have wu: "0 \<le> remlen u \<and> remlen u \<le> maxRemainingLength \<and> Valid (mtype u) \<and>
       (\<forall>t \<in> set (UnsubscribeMessage.topics u). length t \<le> maxLPString)"
    using len by (simp add: u_fields Valid_UNSUBSCRIBE maxRemainingLength_def maxLPString_def)
  have wp: "0 \<le> remlen p \<and> remlen p \<le> maxRemainingLength \<and> Valid (mtype p) \<and>
       topic p \<noteq> [] \<and> length (topic p) \<le> maxLPString \<and> payload p \<noteq> []"
    by (simp add: p_fields Valid_PUBLISH maxRemainingLength_def maxLPString_def)
  have hs: "maxRemainingLength < int (SubscribeMessage_size s) \<and> int (SubscribeMessage_size s) < 2 ^ 31"
    by (simp add: size_s maxRemainingLength_def)
  have hu: "maxRemainingLength < int (UnsubscribeMessage_size u) \<and> int (UnsubscribeMessage_size u) < 2 ^ 31"
    by (simp add: size_u maxRemainingLength_def)
  have hp: "maxRemainingLength < int (PublishMessage_size p) \<and> int (PublishMessage_size p) < 2 ^ 31"
    by (simp add: size_p maxRemainingLength_def)
  have "SubscribeMessage_size s = 268509188
       \<and> SetRemainingLength s (int32 (int (SubscribeMessage_size s))) = (s, Some ErrHeaderSetLength)
       \<and> SubscribeMessage_Encode s =
           (s\<lparr>buf := [0x82, 0x00] @ uint16Bytes 0 @ subscribePayload (zip ts (replicate 4097 1))\<rparr>,
            268509190, None)
       \<and> remlen (fst (SubscribeMessage_Encode s)) = 0
       \<and> UnsubscribeMessage_size u = 268505091
       \<and> SetRemainingLength u (int32 (int (UnsubscribeMessage_size u))) = (u, Some ErrHeaderSetLength)
       \<and> UnsubscribeMessage_Encode u =
           (u\<lparr>buf := [0xA2, 0x00] @ uint16Bytes 0 @ unsubscribePayload ts\<rparr>, 268505093, None)
       \<and> remlen (fst (UnsubscribeMessage_Encode u)) = 0
       \<and> PublishMessage_size p = 268435459
       \<and> SetRemainingLength p (int32 (int (PublishMessage_size p))) = (p, Some ErrHeaderSetLength)
       \<and> PublishMessage_Encode p =
           (p\<lparr>buf := [0x30, 0x00, 0x00, 0x01, 0x61] @ replicate 268435456 0\<rparr>, 268435461, None)
       \<and> remlen (fst (PublishMessage_Encode p)) = 0"
    using C10_oversize_error_discarded [of s u p] hs hu hp ws wu wp
    by (simp add: size_s size_u size_p s_fields u_fields p_fields hb vl)
  then show ?thesis
    unfolding Let_def fold ts_def [symmetric] u_def [symmetric] p_def [symmetric] .
qed

subsection \<open>PUBLISH: the first byte and the decoder on a wire image\<close>










subsection \<open>Round trips: the fixed header\<close>

lemma low_nibble_bits:
  assumes "(w :: byte) < 16" "4 \<le> n"
  shows "\<not> bit w n"
proof -
  have "take_bit 4 w = w" using less_mask_eq [of w 4] assms(1) by (simp add: take_bit_eq_mask)
  then show ?thesis using assms(2) by (metis bit_take_bit_iff not_le)
qed

lemma header_byte:
  assumes "(t :: byte) < 16" "(fl :: byte) < 16"
  shows "drop_bit 4 (push_bit 4 t OR fl) = t"
    and "(push_bit 4 t OR fl) AND 0x0f = fl"
proof -
  show "drop_bit 4 (push_bit 4 t OR fl) = t"
    apply (rule bit_word_eqI)
    subgoal for n
      using low_nibble_bits [OF assms(1), of n] low_nibble_bits [OF assms(2), of "4 + n"]
      by (cases "n < 4") (auto simp add: bit_simps)
    done
  have m: "(0x0f :: byte) = mask 4" by (simp add: mask_eq_exp_minus_1)
  have "take_bit 4 (push_bit 4 t OR fl) = fl"
    apply (rule bit_word_eqI)
    subgoal for n
      using low_nibble_bits [OF assms(2), of n]
      by (cases "n < 4") (auto simp add: bit_simps)
    done
  then show "(push_bit 4 t OR fl) AND 0x0f = fl"
    unfolding m by (simp only: take_bit_eq_mask)
qed

lemma Valid_less_16: "Valid t \<Longrightarrow> t < 16"
  unfolding Valid_def RESERVED2_def by (rule less_trans [of t 15 16]) simp_all

lemma DefaultFlags_less_16: "DefaultFlags t < 16"
  by (simp add: DefaultFlags_def)

lemma fixedHeader_Decode_default:
  assumes "Valid (mtype h)" "mtype h \<noteq> PUBLISH" "int (length body) \<le> maxRemainingLength"
  shows "fixedHeader_Decode h
           (headerBytes (mtype h) (DefaultFlags (mtype h)) (int (length body)) @ body @ sfx) =
     (h\<lparr>flags := DefaultFlags (mtype h), remlen := int (length body), buf := body\<rparr>, sfx,
      1 + length (writeVarint32_loop (int (length body))), None)"
proof -
  let ?b = "push_bit 4 (mtype h) OR DefaultFlags (mtype h)"
  have hb: "drop_bit 4 ?b = mtype h" "?b AND 0x0f = DefaultFlags (mtype h)"
    using header_byte [OF Valid_less_16 [OF assms(1)] DefaultFlags_less_16 [of "mtype h"]]
    by simp_all
  have "fixedHeader_Decode h (?b # writeVarint32_loop (int (length body)) @ body @ sfx) =
     (h\<lparr>flags := ?b AND 0x0f, remlen := int (length body), buf := body\<rparr>, sfx,
      1 + length (writeVarint32_loop (int (length body))), None)"
  proof (rule fixedHeader_Decode_wellformed)
    show "Valid (mtype h)" by (rule assms(1))
    show "drop_bit 4 ?b = mtype h" by (rule hb(1))
    show "mtype h \<noteq> PUBLISH \<longrightarrow> ?b AND 0x0f = DefaultFlags (mtype h)"
      using hb(2) by blast
    show "mtype h = PUBLISH \<longrightarrow> ValidQos (drop_bit 1 (?b AND 0x0f) AND 0x3)"
      using assms(2) by blast
    show "int (length body) \<le> maxRemainingLength" by (rule assms(3))
  qed
  then show ?thesis unfolding hb(2) headerBytes_def by simp
qed

lemma writeVarint32_loop_2: "writeVarint32_loop 2 = [2]"
  by (simp add: writeVarint32_loop.simps)

lemma writeVarint32_loop_0: "writeVarint32_loop 0 = [0]"
  by (simp add: writeVarint32_loop.simps)

subsection \<open>Round trips: PUBACK, CONNACK, SUBACK\<close>

lemma PubackMessage_Encode_result:
  assumes "Valid (mtype m)"
  shows "PubackMessage_Encode m =
     (m\<lparr>remlen := 2,
        buf := headerBytes (mtype m) (flags m) 2 @ uint16Bytes (PubackMessage.packetId m)\<rparr>,
      4, None)"
proof -
  have s: "fst (SetRemainingLength m 2) = m\<lparr>remlen := 2\<rparr>"
    by (simp add: SetRemainingLength_in_range maxRemainingLength_def)
  have he: "fixedHeader_Encode (m\<lparr>remlen := 2\<rparr>) =
     (m\<lparr>remlen := 2, buf := headerBytes (mtype m) (flags m) 2\<rparr>, 2, None)"
    using fixedHeader_Encode_ok [of "m\<lparr>remlen := 2\<rparr>"] assms
    by (simp add: maxRemainingLength_def writeVarint32_loop_2)
  show ?thesis
    unfolding PubackMessage_Encode_def s Let_def he by (simp add: writeUint16_append)
qed

lemma PubackMessage_Decode_wire:
  assumes "Valid (mtype d)" "mtype d \<noteq> PUBLISH"
  shows "PubackMessage_Decode d
           (headerBytes (mtype d) (DefaultFlags (mtype d)) 2 @ uint16Bytes v @ sfx) =
     (d\<lparr>flags := DefaultFlags (mtype d), remlen := 2, PubackMessage.packetId := v, buf := []\<rparr>,
      sfx, 4, None)"
proof -
  have h: "fixedHeader_Decode d
           (headerBytes (mtype d) (DefaultFlags (mtype d)) (int (length (uint16Bytes v))) @
            uint16Bytes v @ sfx) =
     (d\<lparr>flags := DefaultFlags (mtype d), remlen := int (length (uint16Bytes v)),
        buf := uint16Bytes v\<rparr>, sfx,
      1 + length (writeVarint32_loop (int (length (uint16Bytes v)))), None)"
    by (rule fixedHeader_Decode_default [OF assms]) (simp add: maxRemainingLength_def)
  have r: "readUint16 (uint16Bytes v) = (v, None, [])"
    using readUint16_uint16Bytes [of v "[]"] by simp
  show ?thesis
    using h unfolding PubackMessage_Decode_def
    by (simp add: r writeVarint32_loop_2)
qed

lemma ConnackMessage_Encode_result:
  assumes "Valid (mtype m)" "returnCode m \<le> 5"
  shows "ConnackMessage_Encode m =
     (m\<lparr>remlen := 2,
        buf := headerBytes (mtype m) (flags m) 2 @
               [if sessionPresent m then 1 else 0, returnCode m]\<rparr>,
      4, None)"
proof -
  have s: "fst (SetRemainingLength m 2) = m\<lparr>remlen := 2\<rparr>"
    by (simp add: SetRemainingLength_in_range maxRemainingLength_def)
  have he: "fixedHeader_Encode (m\<lparr>remlen := 2\<rparr>) =
     (m\<lparr>remlen := 2, buf := headerBytes (mtype m) (flags m) 2\<rparr>, 2, None)"
    using fixedHeader_Encode_ok [of "m\<lparr>remlen := 2\<rparr>"] assms(1)
    by (simp add: maxRemainingLength_def writeVarint32_loop_2)
  have rc: "\<not> returnCode m > 5" using assms(2) by simp
  show ?thesis
    unfolding ConnackMessage_Encode_def s Let_def he using rc by simp
qed

lemma ConnackMessage_Decode_wire:
  assumes "Valid (mtype d)" "mtype d \<noteq> PUBLISH" "rc \<le> 5"
  shows "ConnackMessage_Decode d
           (headerBytes (mtype d) (DefaultFlags (mtype d)) 2 @
            [if sp then 1 else 0, rc] @ sfx) =
     (d\<lparr>flags := DefaultFlags (mtype d), remlen := 2, sessionPresent := sp, returnCode := rc,
        buf := []\<rparr>,
      sfx, 4, None)"
proof -
  let ?body = "[if sp then 1 else 0, rc]"
  have h: "fixedHeader_Decode d
           (headerBytes (mtype d) (DefaultFlags (mtype d)) (int (length ?body)) @ ?body @ sfx) =
     (d\<lparr>flags := DefaultFlags (mtype d), remlen := int (length ?body), buf := ?body\<rparr>, sfx,
      1 + length (writeVarint32_loop (int (length ?body))), None)"
    by (rule fixedHeader_Decode_default [OF assms(1) assms(2)]) (simp add: maxRemainingLength_def)
  have rc: "\<not> rc > 5" using assms(3) by simp
  show ?thesis
    using h rc unfolding ConnackMessage_Decode_def
    by (cases sp) (simp_all add: writeVarint32_loop_2)
qed

lemma SubackMessage_Encode_result:
  assumes "Valid (mtype m)" "list_all validReturnCode (returnCodes m)"
    and "int (2 + length (returnCodes m)) \<le> maxRemainingLength"
  shows "SubackMessage_Encode m =
     (m\<lparr>remlen := int (2 + length (returnCodes m)),
        buf := headerBytes (mtype m) (flags m) (int (2 + length (returnCodes m))) @
               uint16Bytes (SubackMessage.packetId m) @ returnCodes m\<rparr>,
      1 + length (writeVarint32_loop (int (2 + length (returnCodes m)))) +
        (2 + length (returnCodes m)), None)"
proof -
  let ?r = "int (2 + length (returnCodes m))"
  have i1: "int32 (int (length (returnCodes m))) = int (length (returnCodes m))"
    using assms(3) by (intro int32_id) (simp_all add: maxRemainingLength_def)
  have i2: "int32 (2 + int (length (returnCodes m))) = 2 + int (length (returnCodes m))"
    using assms(3) by (intro int32_id) (simp_all add: maxRemainingLength_def)
  have s: "fst (SetRemainingLength m (int32 (2 + int32 (int (length (returnCodes m)))))) =
           m\<lparr>remlen := ?r\<rparr>"
    unfolding i1 i2 using assms(3) by (simp add: SetRemainingLength_in_range)
  have he: "fixedHeader_Encode (m\<lparr>remlen := ?r\<rparr>) =
     (m\<lparr>remlen := ?r, buf := headerBytes (mtype m) (flags m) ?r\<rparr>,
      1 + length (writeVarint32_loop ?r), None)"
    using fixedHeader_Encode_ok [of "m\<lparr>remlen := ?r\<rparr>"] assms(1) assms(3) by simp
  show ?thesis
    unfolding SubackMessage_Encode_def s Let_def he using assms(2)
    by (simp add: writeUint16_append)
qed

lemma SubackMessage_Decode_wire:
  assumes "Valid (mtype d)" "mtype d \<noteq> PUBLISH" "list_all validReturnCode rcs"
    and "int (2 + length rcs) \<le> maxRemainingLength"
  shows "SubackMessage_Decode d
           (headerBytes (mtype d) (DefaultFlags (mtype d)) (int (2 + length rcs)) @
            uint16Bytes v @ rcs @ sfx) =
     (d\<lparr>flags := DefaultFlags (mtype d), remlen := int (2 + length rcs),
        SubackMessage.packetId := v, returnCodes := rcs, buf := []\<rparr>,
      sfx, 1 + length (writeVarint32_loop (int (2 + length rcs))) + (2 + length rcs), None)"
proof -
  let ?body = "uint16Bytes v @ rcs"
  have lb: "length ?body = 2 + length rcs" by simp
  have h: "fixedHeader_Decode d
           (headerBytes (mtype d) (DefaultFlags (mtype d)) (int (length ?body)) @ ?body @ sfx) =
     (d\<lparr>flags := DefaultFlags (mtype d), remlen := int (length ?body), buf := ?body\<rparr>, sfx,
      1 + length (writeVarint32_loop (int (length ?body))), None)"
    by (rule fixedHeader_Decode_default [OF assms(1) assms(2)]) (simp add: assms(4) [simplified])
  show ?thesis
    using h assms(3) unfolding SubackMessage_Decode_def lb
    by (simp add: readUint16_uint16Bytes Let_def)
qed

subsection \<open>Round trips: SUBSCRIBE and UNSUBSCRIBE\<close>

lemma SetRemainingLength_size:
  assumes "int n \<le> maxRemainingLength"
  shows "fst (SetRemainingLength m (int32 (int n))) = m\<lparr>remlen := int n\<rparr>"
proof -
  have "int32 (int n) = int n"
    using assms by (intro int32_id) (simp_all add: maxRemainingLength_def)
  then show ?thesis using assms by (simp add: SetRemainingLength_in_range)
qed

lemma SubscribeMessage_Decode_wire:
  fixes d :: SubscribeMessage
  assumes "Valid (mtype d)" "mtype d \<noteq> PUBLISH"
    and "pairs \<noteq> []"
    and "\<forall>p \<in> set pairs. length (fst p) \<le> maxLPString"
    and "body = uint16Bytes pid @ subscribePayload pairs"
    and "int (length body) \<le> maxRemainingLength"
  shows "SubscribeMessage_Decode d
           (headerBytes (mtype d) (DefaultFlags (mtype d)) (int (length body)) @ body @ sfx) =
     (d\<lparr>flags := DefaultFlags (mtype d), remlen := int (length body),
        SubscribeMessage.packetId := pid,
        SubscribeMessage.topics := SubscribeMessage.topics d @ map fst pairs,
        qos := qos d @ map snd pairs, buf := []\<rparr>,
      sfx, 1 + length (writeVarint32_loop (int (length body))) + length body, None)"
proof -
  let ?src = "headerBytes (mtype d) (DefaultFlags (mtype d)) (int (length body)) @ body @ sfx"
  let ?n = "1 + length (writeVarint32_loop (int (length body)))"
  let ?h = "d\<lparr>flags := DefaultFlags (mtype d), remlen := int (length body), buf := body\<rparr>"
  let ?m1 = "?h\<lparr>SubscribeMessage.packetId := pid, buf := subscribePayload pairs\<rparr>"
  have hd: "fixedHeader_Decode d ?src = (?h, sfx, ?n, None)"
    by (rule fixedHeader_Decode_default [OF assms(1) assms(2) assms(6)])
  have ru: "readUint16 (buf ?h) = (pid, None, subscribePayload pairs)"
    using assms(5) by (simp add: readUint16_uint16Bytes)
  obtain m' n' e' where lp: "SubscribeMessage_Decode_loop ?m1 (?n + 2) = (m', n', e')"
    by (metis prod_cases3)
  have b1: "buf ?m1 = subscribePayload pairs" by simp
  note l = SubscribeMessage_Decode_loop_payload [OF assms(4) b1, of "?n + 2"]
  have e: "e' = None" and n: "n' = ?n + 2 + length (subscribePayload pairs)"
    and f: "buf m' = []" "SubscribeMessage.topics m' = SubscribeMessage.topics d @ map fst pairs"
       "qos m' = qos d @ map snd pairs" "SubscribeMessage.packetId m' = pid"
       "mtype m' = mtype d" "flags m' = DefaultFlags (mtype d)" "remlen m' = int (length body)"
    using l unfolding lp by simp_all
  have m': "m' = d\<lparr>flags := DefaultFlags (mtype d), remlen := int (length body),
        SubscribeMessage.packetId := pid,
        SubscribeMessage.topics := SubscribeMessage.topics d @ map fst pairs,
        qos := qos d @ map snd pairs, buf := []\<rparr>"
    using f by (intro SubscribeMessage.equality) simp_all
  have ne: "length (SubscribeMessage.topics m') \<noteq> 0" using f(2) assms(3) by simp
  have len: "length body = 2 + length (subscribePayload pairs)" using assms(5) by simp
  have res: "SubscribeMessage_Decode d ?src = (m', sfx, n', None)"
    unfolding SubscribeMessage_Decode_def hd using ru lp e ne by simp
  show ?thesis unfolding res n using m' len by simp
qed

lemma UnsubscribeMessage_Decode_loop_payload:
  assumes "\<forall>t \<in> set ts. length t \<le> maxLPString"
    and "buf m = unsubscribePayload ts"
  shows "UnsubscribeMessage_Decode_loop m tot =
     (m\<lparr>buf := [], UnsubscribeMessage.topics := UnsubscribeMessage.topics m @ ts\<rparr>,
      tot + length (unsubscribePayload ts), None)"
  using assms
proof (induction ts arbitrary: m tot)
  case Nil
  then show ?case
    by (simp add: UnsubscribeMessage_Decode_loop.simps [of m tot] unsubscribePayload_def)
next
  case (Cons t ts)
  have b: "buf m = lpBytes t @ unsubscribePayload ts"
    using Cons.prems(2) by (simp add: unsubscribePayload_def)
  have lt: "length t \<le> maxLPString" using Cons.prems(1) by simp
  have r: "readLPBytes (buf m) = (t, 2 + length t, None, unsubscribePayload ts)"
    unfolding b by (rule readLPBytes_lpBytes [OF lt])
  let ?m1 = "m\<lparr>buf := unsubscribePayload ts,
               UnsubscribeMessage.topics := UnsubscribeMessage.topics m @ [t]\<rparr>"
  have ih: "UnsubscribeMessage_Decode_loop ?m1 (tot + (2 + length t)) =
     (?m1\<lparr>buf := [], UnsubscribeMessage.topics := UnsubscribeMessage.topics ?m1 @ ts\<rparr>,
      tot + (2 + length t) + length (unsubscribePayload ts), None)"
    using Cons.prems(1) by (intro Cons.IH) simp_all
  have ne: "length (buf m) > 0" unfolding b by simp
  show ?case
    using ne r ih
    by (simp add: UnsubscribeMessage_Decode_loop.simps [of m tot] unsubscribePayload_def)
qed

lemma UnsubscribeMessage_Decode_wire:
  fixes d :: UnsubscribeMessage
  assumes "Valid (mtype d)" "mtype d \<noteq> PUBLISH"
    and "ts \<noteq> []"
    and "\<forall>t \<in> set ts. length t \<le> maxLPString"
    and "body = uint16Bytes pid @ unsubscribePayload ts"
    and "int (length body) \<le> maxRemainingLength"
  shows "UnsubscribeMessage_Decode d
           (headerBytes (mtype d) (DefaultFlags (mtype d)) (int (length body)) @ body @ sfx) =
     (d\<lparr>flags := DefaultFlags (mtype d), remlen := int (length body),
        UnsubscribeMessage.packetId := pid,
        UnsubscribeMessage.topics := UnsubscribeMessage.topics d @ ts, buf := []\<rparr>,
      sfx, 1 + length (writeVarint32_loop (int (length body))) + length body, None)"
proof -
  let ?src = "headerBytes (mtype d) (DefaultFlags (mtype d)) (int (length body)) @ body @ sfx"
  let ?n = "1 + length (writeVarint32_loop (int (length body)))"
  let ?h = "d\<lparr>flags := DefaultFlags (mtype d), remlen := int (length body), buf := body\<rparr>"
  let ?m1 = "?h\<lparr>UnsubscribeMessage.packetId := pid, buf := unsubscribePayload ts\<rparr>"
  have hd: "fixedHeader_Decode d ?src = (?h, sfx, ?n, None)"
    by (rule fixedHeader_Decode_default [OF assms(1) assms(2) assms(6)])
  have ru: "readUint16 (buf ?h) = (pid, None, unsubscribePayload ts)"
    using assms(5) by (simp add: readUint16_uint16Bytes)
  have b1: "buf ?m1 = unsubscribePayload ts" by simp
  note l = UnsubscribeMessage_Decode_loop_payload [OF assms(4) b1, of "?n + 2"]
  have len: "length body = 2 + length (unsubscribePayload ts)" using assms(5) by simp
  show ?thesis
    unfolding UnsubscribeMessage_Decode_def hd using ru l assms(3) len by simp
qed

subsection \<open>Round trips: CONNECT\<close>

lemma length_connectBody:
  "length (connectBody m verstr) = ConnectMessage_size m verstr"
  by (simp add: connectBody_def connectTail_def ConnectMessage_size_def Let_def)

lemma encodeMessage_result:
  assumes "SupportedVersions (version m) = Some verstr"
    and "length (clientId m) \<le> maxLPString"
    and "WillFlag m \<longrightarrow> length (willTopic m) \<le> maxLPString \<and> length (willMessage m) \<le> maxLPString"
    and "length (username m) \<le> maxLPString" "length (password m) \<le> maxLPString"
  shows "encodeMessage m =
     (m\<lparr>buf := buf m @ connectBody m verstr\<rparr>, length (connectBody m verstr), None)"
proof -
  have v: "length verstr \<le> maxLPString" by (rule SupportedVersions_length [OF assms(1)])
  let ?b1 = "buf m @ lpBytes verstr @ [version m, connectFlags m] @ uint16Bytes (keepAlive m) @
             lpBytes (clientId m)"
  let ?n1 = "2 + length verstr + 1 + 1 + 2 + (2 + length (clientId m))"
  have f: "encodeMessage_fixed m = (m\<lparr>buf := ?b1\<rparr>, ?n1, None)"
    by (simp add: encodeMessage_fixed_def assms(1) writeLPBytes_ok [OF v]
        writeLPBytes_ok [OF assms(2)] writeUint16_append Let_def)
  let ?w = "if WillFlag m then lpBytes (willTopic m) @ lpBytes (willMessage m) else []"
  have w: "encodeMessage_will (m\<lparr>buf := ?b1\<rparr>) ?n1 =
     (m\<lparr>buf := ?b1 @ ?w\<rparr>, ?n1 + length ?w, None)"
    using assms(3)
    by (simp add: encodeMessage_will_def WillFlag_def writeLPBytes_ok)
  let ?u = "if UsernameFlag m \<and> length (username m) > 0 then lpBytes (username m) else []"
  have u: "encodeMessage_username (m\<lparr>buf := ?b1 @ ?w\<rparr>) (?n1 + length ?w) =
     (m\<lparr>buf := ?b1 @ ?w @ ?u\<rparr>, ?n1 + length ?w + length ?u, None)"
    by (simp add: encodeMessage_username_def UsernameFlag_def writeLPBytes_ok [OF assms(4)])
  let ?p = "if PasswordFlag m \<and> length (password m) > 0 then lpBytes (password m) else []"
  have p: "encodeMessage_password (m\<lparr>buf := ?b1 @ ?w @ ?u\<rparr>) (?n1 + length ?w + length ?u) =
     (m\<lparr>buf := ?b1 @ ?w @ ?u @ ?p\<rparr>, ?n1 + length ?w + length ?u + length ?p, None)"
    by (simp add: encodeMessage_password_def PasswordFlag_def writeLPBytes_ok [OF assms(5)])
  have b: "?b1 @ ?w @ ?u @ ?p = buf m @ connectBody m verstr"
    by (simp add: connectBody_def connectTail_def)
  have n: "?n1 + length ?w + length ?u + length ?p = length (connectBody m verstr)"
    by (simp add: connectBody_def connectTail_def)
  have "encodeMessage m =
     (m\<lparr>buf := ?b1 @ ?w @ ?u @ ?p\<rparr>, ?n1 + length ?w + length ?u + length ?p, None)"
    unfolding encodeMessage_def f using w u p by simp
  then show ?thesis unfolding b n .
qed

lemma ConnectMessage_Encode_result:
  assumes "mtype m = CONNECT" "SupportedVersions (version m) = Some verstr"
    and "int (ConnectMessage_size m verstr) \<le> maxRemainingLength"
    and "length (clientId m) \<le> maxLPString"
    and "WillFlag m \<longrightarrow> length (willTopic m) \<le> maxLPString \<and> length (willMessage m) \<le> maxLPString"
    and "length (username m) \<le> maxLPString" "length (password m) \<le> maxLPString"
  shows "ConnectMessage_Encode m =
     (m\<lparr>remlen := int (ConnectMessage_size m verstr),
        buf := headerBytes CONNECT (flags m) (int (ConnectMessage_size m verstr)) @
               connectBody m verstr\<rparr>,
      1 + length (writeVarint32_loop (int (ConnectMessage_size m verstr))) +
        ConnectMessage_size m verstr, None)"
proof -
  let ?r = "int (ConnectMessage_size m verstr)"
  let ?m1 = "m\<lparr>remlen := ?r\<rparr>"
  let ?m2 = "?m1\<lparr>buf := headerBytes CONNECT (flags m) ?r\<rparr>"
  have i: "int32 ?r = ?r"
    using assms(3) by (intro int32_id) (simp_all add: maxRemainingLength_def)
  have s: "SetRemainingLength m (int32 ?r) = (?m1, None)"
    unfolding i using assms(3) by (simp add: SetRemainingLength_in_range)
  have he: "fixedHeader_Encode ?m1 = (?m2, 1 + length (writeVarint32_loop ?r), None)"
    using fixedHeader_Encode_ok [of ?m1] assms(1) assms(3) by (simp add: Valid_CONNECT)
  have sz: "ConnectMessage_size ?m2 verstr = ConnectMessage_size m verstr"
    by (simp add: ConnectMessage_size_def WillFlag_def UsernameFlag_def PasswordFlag_def)
  have cb: "connectBody ?m2 verstr = connectBody m verstr"
    by (simp add: connectBody_def connectTail_def WillFlag_def UsernameFlag_def PasswordFlag_def)
  have em: "encodeMessage ?m2 =
     (?m2\<lparr>buf := buf ?m2 @ connectBody ?m2 verstr\<rparr>, length (connectBody ?m2 verstr), None)"
    using assms by (intro encodeMessage_result) (simp_all add: WillFlag_def)
  show ?thesis
    unfolding ConnectMessage_Encode_def using assms(1) assms(2) s he em
    by (simp add: cb length_connectBody)
qed

end
